theory Spec2Isabelle
  imports Complex_Main "HOL-Library.AList"
begin

section \<open>Values of the store\<close>

text \<open>
  The values that reach the table engine are the ones the parser produces (\<open>int\<close>,
  \<open>float\<close>, \<open>str\<close>) and \<open>None\<close> (a missing form field, or the result of
  \<open>dict.get\<close> on a missing key). Python integers are unbounded. A float is modelled by
  the exact number it denotes, with negative zero, the two infinities and NaN. Strings
  are lists of characters with code points below 256.
\<close>

datatype pyfloat = Fin rat | NegZero | PosInf | NegInf | NaN

datatype pyval = PNone | PInt int | PFloat pyfloat | PStr string

text \<open>
  Python's \<open>==\<close> and \<open>hash\<close> on these values: an \<open>int\<close> and a \<open>float\<close> are equal
  when they denote the same number (\<open>1 == 1.0\<close>, \<open>0.0 == -0.0\<close>), values of different
  kinds are unequal otherwise, and a NaN is equal to nothing, itself included.
  \<open>key_of\<close> is the class of a value under \<open>==\<close>, with one more class for NaN. (A \<open>dict\<close>
  compares a key by identity before it compares with \<open>==\<close>, so it finds the very object
  that was stored, NaN or not; values have no identity here, and each NaN is taken as
  an object of its own, as \<open>float('nan')\<close> and the parser produce them.)
\<close>

datatype pykey = KNone | KNum rat | KPosInf | KNegInf | KNaN | KStr string

fun key_of :: "pyval \<Rightarrow> pykey" where
  "key_of PNone = KNone"
| "key_of (PInt i) = KNum (of_int i)"
| "key_of (PFloat (Fin q)) = KNum q"
| "key_of (PFloat NegZero) = KNum 0"
| "key_of (PFloat PosInf) = KPosInf"
| "key_of (PFloat NegInf) = KNegInf"
| "key_of (PFloat NaN) = KNaN"
| "key_of (PStr s) = KStr s"

definition py_eq :: "pyval \<Rightarrow> pyval \<Rightarrow> bool" where
  "py_eq a b = (key_of a = key_of b \<and> key_of a \<noteq> KNaN)"

text \<open>The equality the specification calls type-sensitive: the kind and the value agree.\<close>

fun same_kind :: "pyval \<Rightarrow> pyval \<Rightarrow> bool" where
  "same_kind PNone PNone = True"
| "same_kind (PInt _) (PInt _) = True"
| "same_kind (PFloat _) (PFloat _) = True"
| "same_kind (PStr _) (PStr _) = True"
| "same_kind _ _ = False"

definition type_sensitive_eq :: "pyval \<Rightarrow> pyval \<Rightarrow> bool" where
  "type_sensitive_eq a b = (same_kind a b \<and> py_eq a b)"

datatype exn = ValueError | TypeError | OverflowError | KeyError | IndexError

datatype 'a outcome = Return 'a | Raise exn

subsection \<open>Strings\<close>

definition isspace :: "char \<Rightarrow> bool" where
  "isspace c = (let n = (of_char c :: nat) in
     (9 \<le> n \<and> n \<le> 13) \<or> (28 \<le> n \<and> n \<le> 32) \<or> n = 133 \<or> n = 160)"

definition strip :: "string \<Rightarrow> string" where
  "strip s = rev (dropWhile isspace (rev (dropWhile isspace s)))"

definition upper_char :: "char \<Rightarrow> char" where
  "upper_char c = (let n = (of_char c :: nat) in
     if 97 \<le> n \<and> n \<le> 122 then char_of (n - 32) else c)"

definition upper :: "string \<Rightarrow> string" where
  "upper s = map upper_char s"

definition isdigit :: "char \<Rightarrow> bool" where
  "isdigit c = (let n = (of_char c :: nat) in 48 \<le> n \<and> n \<le> 57)"

definition digit_val :: "char \<Rightarrow> nat" where
  "digit_val c = of_char c - 48"

text \<open>\<open>str(n)\<close> of a natural number, most significant digit first.\<close>

definition digit_char :: "nat \<Rightarrow> char" where
  "digit_char d = ''0123456789'' ! d"

function str_of_nat :: "nat \<Rightarrow> string" where
  "str_of_nat n =
     (if n < 10 then [digit_char n]
      else str_of_nat (n div 10) @ [digit_char (n mod 10)])"
  by pat_completeness auto
termination
  by (relation "measure id") auto

declare str_of_nat.simps [simp del]

definition str_of_int :: "int \<Rightarrow> string" where
  "str_of_int i = (if i < 0 then CHR ''-'' # str_of_nat (nat (- i)) else str_of_nat (nat i))"

text \<open>
  The interpreter's limit on the digits of a conversion between \<open>int\<close> and \<open>str\<close>
  (\<open>sys.get_int_max_str_digits()\<close>: 4300 by default in recent interpreters, 0 for no
  limit, as in the older ones): a conversion of more than 640 digits fails with
  \<open>ValueError\<close> when the limit is set and the digits exceed it.
\<close>

definition exceeds_limit :: "nat \<Rightarrow> nat \<Rightarrow> bool" where
  "exceeds_limit max_str_digits digits =
     (640 < digits \<and> 0 < max_str_digits \<and> max_str_digits < digits)"

text \<open>
  \<open>int(s)\<close> for a string, base 10: surrounding whitespace is dropped, one sign is
  allowed, and the digits may be grouped by single underscores. \<open>None\<close> is the
  \<open>ValueError\<close>. The whitespace that \<open>int\<close> skips is narrower than that of
  \<open>str.strip\<close>: the separators with code points 28 to 31 are not skipped.
\<close>

definition int_space :: "char \<Rightarrow> bool" where
  "int_space c = (let n = (of_char c :: nat) in
     (9 \<le> n \<and> n \<le> 13) \<or> n = 32 \<or> n = 133 \<or> n = 160)"

definition int_strip :: "string \<Rightarrow> string" where
  "int_strip s = rev (dropWhile int_space (rev (dropWhile int_space s)))"

fun int_body :: "string \<Rightarrow> nat \<Rightarrow> nat option" where
  "int_body [] acc = Some acc"
| "int_body [c] acc = (if isdigit c then Some (10 * acc + digit_val c) else None)"
| "int_body (c # d # cs) acc =
     (if isdigit c then int_body (d # cs) (10 * acc + digit_val c)
      else if c = CHR ''_'' \<and> isdigit d then int_body cs (10 * acc + digit_val d)
      else None)"

definition int_unsigned :: "string \<Rightarrow> nat option" where
  "int_unsigned s =
     (case s of [] \<Rightarrow> None
      | c # cs \<Rightarrow> if isdigit c then int_body cs (digit_val c) else None)"

definition int_of_str :: "nat \<Rightarrow> string \<Rightarrow> int option" where
  "int_of_str max_str_digits s =
     (if exceeds_limit max_str_digits (length (filter isdigit s)) then None
      else case int_strip s of [] \<Rightarrow> None
      | c # cs \<Rightarrow>
          if c = CHR ''-'' then map_option (\<lambda>n. - int n) (int_unsigned cs)
          else if c = CHR ''+'' then map_option int (int_unsigned cs)
          else map_option int (int_unsigned (c # cs)))"

subsection \<open>Conversions (src/types.py)\<close>

text \<open>
  What depends on the interpreter is a parameter of the model: rounding an integer to a
  float (\<open>None\<close>: \<open>OverflowError\<close>), reading a float literal (\<open>None\<close>: \<open>ValueError\<close>),
  printing a float, and the limit on the digits of an integer conversion. Every theorem
  below holds for any choice of the four.
\<close>

record py_prims =
  float_of_int :: "int \<Rightarrow> pyfloat option"
  float_of_str :: "string \<Rightarrow> pyfloat option"
  str_of_float :: "pyfloat \<Rightarrow> string"
  int_max_str_digits :: nat

text \<open>\<open>int(value)\<close>: truncation towards zero for a float.\<close>

fun py_int :: "py_prims \<Rightarrow> pyval \<Rightarrow> pyval outcome" where
  "py_int fp PNone = Raise TypeError"
| "py_int fp (PInt i) = Return (PInt i)"
| "py_int fp (PFloat (Fin q)) = Return (PInt (if 0 \<le> q then \<lfloor>q\<rfloor> else - \<lfloor>- q\<rfloor>))"
| "py_int fp (PFloat NegZero) = Return (PInt 0)"
| "py_int fp (PFloat PosInf) = Raise OverflowError"
| "py_int fp (PFloat NegInf) = Raise OverflowError"
| "py_int fp (PFloat NaN) = Raise ValueError"
| "py_int fp (PStr s) =
     (case int_of_str (int_max_str_digits fp) s of
        None \<Rightarrow> Raise ValueError
      | Some i \<Rightarrow> Return (PInt i))"

text \<open>\<open>str(value)\<close>; for an integer the digit limit applies.\<close>

fun py_str :: "py_prims \<Rightarrow> pyval \<Rightarrow> pyval outcome" where
  "py_str fp PNone = Return (PStr ''None'')"
| "py_str fp (PInt i) =
     (if exceeds_limit (int_max_str_digits fp) (length (str_of_nat (nat \<bar>i\<bar>)))
      then Raise ValueError else Return (PStr (str_of_int i)))"
| "py_str fp (PFloat f) = Return (PStr (str_of_float fp f))"
| "py_str fp (PStr s) = Return (PStr s)"

fun py_float :: "py_prims \<Rightarrow> pyval \<Rightarrow> pyval outcome" where
  "py_float fp PNone = Raise TypeError"
| "py_float fp (PInt i) =
     (case float_of_int fp i of None \<Rightarrow> Raise OverflowError | Some f \<Rightarrow> Return (PFloat f))"
| "py_float fp (PFloat f) = Return (PFloat f)"
| "py_float fp (PStr s) =
     (case float_of_str fp s of None \<Rightarrow> Raise ValueError | Some f \<Rightarrow> Return (PFloat f))"

text \<open>
  \<open>convert_value\<close>: a \<open>ValueError\<close> or \<open>TypeError\<close> of the conversion is raised again as
  \<open>ValueError\<close>; any other exception (\<open>OverflowError\<close>) passes through.
\<close>

definition convert_value :: "py_prims \<Rightarrow> pyval \<Rightarrow> string \<Rightarrow> pyval outcome" where
  "convert_value fp v type_name =
     (let tn = upper type_name;
          r = (if tn = ''INT'' then py_int fp v
               else if tn \<in> set [''TEXT'', ''VARCHAR'', ''CHAR'', ''STRING'']
                 then py_str fp v
               else if tn \<in> set [''FLOAT'', ''REAL'', ''DOUBLE''] then py_float fp v
               else Return v)
      in case r of
           Raise ValueError \<Rightarrow> Raise ValueError
         | Raise TypeError \<Rightarrow> Raise ValueError
         | _ \<Rightarrow> r)"

section \<open>The parser's value scanner (src/parser.py)\<close>

definition dquote :: char where
  "dquote = CHR 0x22"

definition squote :: char where
  "squote = CHR 0x27"

text \<open>
  \<open>_parse_single_value\<close>: a token with a double quote at both ends, or a single quote at
  both ends, is the text between them (\<open>value_str[1:-1]\<close>); otherwise \<open>int\<close>, then
  \<open>float\<close>, then the token itself.
\<close>

definition startswith :: "string \<Rightarrow> char \<Rightarrow> bool" where
  "startswith s c = (case s of [] \<Rightarrow> False | x # _ \<Rightarrow> x = c)"

definition endswith :: "string \<Rightarrow> char \<Rightarrow> bool" where
  "endswith s c = (s \<noteq> [] \<and> last s = c)"

definition parse_single_value :: "py_prims \<Rightarrow> string \<Rightarrow> pyval" where
  "parse_single_value fp value_str =
     (let s = strip value_str in
      if (startswith s dquote \<and> endswith s dquote) \<or> (startswith s squote \<and> endswith s squote)
      then PStr (butlast (tl s))
      else case int_of_str (int_max_str_digits fp) s of
             Some i \<Rightarrow> PInt i
           | None \<Rightarrow> (case float_of_str fp s of Some f \<Rightarrow> PFloat f | None \<Rightarrow> PStr s))"

text \<open>
  \<open>_parse_values\<close>: one pass over the characters with the loop's four variables. A quote
  that opens or closes a quoted stretch is not added to \<open>current\<close>.
\<close>

record scan =
  vals :: "pyval list"
  current :: string
  in_quotes :: bool
  quote_char :: "char option"

definition scan_char :: "py_prims \<Rightarrow> char \<Rightarrow> scan \<Rightarrow> scan" where
  "scan_char fp c st =
     (if (c = dquote \<or> c = squote) \<and> \<not> in_quotes st
        then st\<lparr>in_quotes := True, quote_char := Some c\<rparr>
      else if Some c = quote_char st \<and> in_quotes st
        then st\<lparr>in_quotes := False, quote_char := None\<rparr>
      else if c = CHR '','' \<and> \<not> in_quotes st
        then st\<lparr>vals := vals st @ [parse_single_value fp (strip (current st))], current := []\<rparr>
      else st\<lparr>current := current st @ [c]\<rparr>)"

definition scan_init :: scan where
  "scan_init = \<lparr>vals = [], current = [], in_quotes = False, quote_char = None\<rparr>"

definition parse_values :: "py_prims \<Rightarrow> string \<Rightarrow> pyval list" where
  "parse_values fp values_str =
     (let st = fold (scan_char fp) values_str scan_init in
      if strip (current st) \<noteq> []
      then vals st @ [parse_single_value fp (strip (current st))]
      else vals st)"

section \<open>The table engine (src/table.py)\<close>

subsection \<open>Dictionaries\<close>

text \<open>
  A Python \<open>dict\<close> keeps its keys in insertion order, so a dictionary is an association
  list. A row maps column names to values; storing under a name that is present
  replaces the value in place, which is \<open>AList.update\<close>. An index maps values to row
  positions; its keys are compared with \<open>==\<close>, and storing under a key equal to one that
  is present keeps the key that was there.
\<close>

type_synonym row = "(string \<times> pyval) list"

type_synonym index = "(pyval \<times> nat) list"

definition row_get :: "row \<Rightarrow> string \<Rightarrow> pyval" where
  "row_get r col = (case map_of r col of None \<Rightarrow> PNone | Some v \<Rightarrow> v)"

fun idx_mem :: "pyval \<Rightarrow> index \<Rightarrow> bool" where
  "idx_mem k [] = False"
| "idx_mem k ((k', v) # d) = (py_eq k' k \<or> idx_mem k d)"

fun idx_get :: "index \<Rightarrow> pyval \<Rightarrow> nat option" where
  "idx_get [] k = None"
| "idx_get ((k', v) # d) k = (if py_eq k' k then Some v else idx_get d k)"

fun idx_set :: "pyval \<Rightarrow> nat \<Rightarrow> index \<Rightarrow> index" where
  "idx_set k v [] = [(k, v)]"
| "idx_set k v ((k', v') # d) = (if py_eq k' k then (k', v) # d else (k', v') # idx_set k v d)"

fun idx_del :: "pyval \<Rightarrow> index \<Rightarrow> index" where
  "idx_del k [] = []"
| "idx_del k ((k', v') # d) = (if py_eq k' k then d else (k', v') # idx_del k d)"

subsection \<open>Tables and results\<close>

record table =
  name :: string
  columns :: "(string \<times> string) list"
  column_names :: "string list"
  column_types :: "(string \<times> string) list"
  primary_key :: string
  unique_columns :: "string list"
  rows :: "row list"
  primary_index :: index
  unique_indexes :: "(string \<times> index) list"

text \<open>
  \<open>Table.__init__\<close>. \<open>unique_columns\<close> is a Python set; the list holds its elements once
  each, in the order the loops over the set visit them.
\<close>

definition Table_init :: "string \<Rightarrow> (string \<times> string) list \<Rightarrow> string \<Rightarrow> string list \<Rightarrow> table" where
  "Table_init n cols pk uniq =
     \<lparr>name = n, columns = cols, column_names = map fst cols,
      column_types = fold (\<lambda>col d. AList.update (fst col) (snd col) d) cols [],
      primary_key = pk, unique_columns = remdups uniq,
      rows = [], primary_index = [],
      unique_indexes = map (\<lambda>col. (col, [])) (remdups uniq)\<rparr>"

text \<open>
  The message of a result is kept as its template and the values put into it:
  \<open>Updated n\<close> is the text \<open>Updated n row(s)\<close>, and so on. The text of the interpreter's
  own exceptions, which the type error messages quote, is not modelled.
\<close>

datatype message =
    ExpectedValues nat nat
  | TypeErrorForColumn string
  | PrimaryKeyViolation pyval
  | UniqueViolation string pyval
  | Inserted string
  | Selected nat
  | UpdateWithoutWhere
  | Updated nat
  | TypeErrorMsg
  | DeleteWithoutWhere
  | Deleted nat
  | TableDoesNotExist string
  | ColumnNotFound string string
  | SelectedFromJoin nat
  | ErrorExecutingQuery exn

record result =
  success :: bool
  message :: message
  out_columns :: "string list option"
  out_data :: "pyval list list option"

definition failure :: "message \<Rightarrow> result" where
  "failure m = \<lparr>success = False, message = m, out_columns = None, out_data = None\<rparr>"

definition ok :: "message \<Rightarrow> result" where
  "ok m = \<lparr>success = True, message = m, out_columns = None, out_data = None\<rparr>"

subsection \<open>insert\<close>

datatype row_build = Built row | TypeFailure string | BuildRaised exn

text \<open>The loop that converts the values, one column after the other.\<close>

fun build_row :: "py_prims \<Rightarrow> (string \<times> string) list \<Rightarrow> pyval list \<Rightarrow> row \<Rightarrow> row_build" where
  "build_row fp [] vs r = Built r"
| "build_row fp ((col_name, col_type) # cols) [] r = BuildRaised IndexError"
| "build_row fp ((col_name, col_type) # cols) (v # vs) r =
     (case convert_value fp v col_type of
        Return c \<Rightarrow> build_row fp cols vs (AList.update col_name c r)
      | Raise ValueError \<Rightarrow> TypeFailure col_name
      | Raise e \<Rightarrow> BuildRaised e)"

datatype unique_check = UniqueOk | UniqueClash string pyval | UniqueRaised exn

fun check_unique :: "(string \<times> index) list \<Rightarrow> row \<Rightarrow> string list \<Rightarrow> unique_check" where
  "check_unique uix r [] = UniqueOk"
| "check_unique uix r (col # cols) =
     (case map_of r col of
        None \<Rightarrow> UniqueRaised KeyError
      | Some col_value \<Rightarrow>
          (case map_of uix col of
             None \<Rightarrow> UniqueRaised KeyError
           | Some ix \<Rightarrow>
               if idx_mem col_value ix then UniqueClash col col_value
               else check_unique uix r cols))"

text \<open>
  \<open>for col in self.unique_columns: self.unique_indexes[col][row[col]] = row_index\<close>;
  the first component is the exception that stopped the loop, if any.
\<close>

fun set_unique :: "row \<Rightarrow> nat \<Rightarrow> string list \<Rightarrow> (string \<times> index) list
    \<Rightarrow> exn option \<times> (string \<times> index) list" where
  "set_unique r i [] uix = (None, uix)"
| "set_unique r i (col # cols) uix =
     (case map_of uix col of
        None \<Rightarrow> (Some KeyError, uix)
      | Some ix \<Rightarrow>
          (case map_of r col of
             None \<Rightarrow> (Some KeyError, uix)
           | Some v \<Rightarrow> set_unique r i cols (AList.update col (idx_set v i ix) uix)))"

definition Table_insert :: "py_prims \<Rightarrow> table \<Rightarrow> pyval list \<Rightarrow> result outcome \<times> table" where
  "Table_insert fp t vs =
     (if length vs \<noteq> length (columns t)
      then (Return (failure (ExpectedValues (length (columns t)) (length vs))), t)
      else
       (case build_row fp (columns t) vs [] of
          TypeFailure col_name \<Rightarrow> (Return (failure (TypeErrorForColumn col_name)), t)
        | BuildRaised e \<Rightarrow> (Raise e, t)
        | Built r \<Rightarrow>
           (case map_of r (primary_key t) of
              None \<Rightarrow> (Raise KeyError, t)
            | Some pk_value \<Rightarrow>
               (if idx_mem pk_value (primary_index t)
                then (Return (failure (PrimaryKeyViolation pk_value)), t)
                else
                 (case check_unique (unique_indexes t) r (unique_columns t) of
                    UniqueClash col col_value \<Rightarrow>
                      (Return (failure (UniqueViolation col col_value)), t)
                  | UniqueRaised e \<Rightarrow> (Raise e, t)
                  | UniqueOk \<Rightarrow>
                     (let row_index = length (rows t);
                          t1 = t\<lparr>rows := rows t @ [r]\<rparr>;
                          t2 = t1\<lparr>primary_index := idx_set pk_value row_index (primary_index t1)\<rparr>;
                          su = set_unique r row_index (unique_columns t2) (unique_indexes t2);
                          t3 = t2\<lparr>unique_indexes := snd su\<rparr>
                      in (case fst su of
                            Some e \<Rightarrow> (Raise e, t3)
                          | None \<Rightarrow> (Return (ok (Inserted (name t))), t3))))))))"

subsection \<open>select\<close>

text \<open>
  A WHERE predicate is the pair of its column and its value; \<open>None\<close> is the absent (or
  empty) predicate. The column list is \<open>None\<close> where the caller passes none.
\<close>

type_synonym predicate = "string \<times> pyval"

definition matches :: "predicate \<Rightarrow> row \<Rightarrow> bool" where
  "matches w r = py_eq (row_get r (fst w)) (snd w)"


subsection \<open>update\<close>

text \<open>The positions of the rows that a predicate matches, in ascending order.\<close>

definition matching :: "predicate \<Rightarrow> row list \<Rightarrow> nat list" where
  "matching w rs = filter (\<lambda>idx. matches w (rs ! idx)) [0..<length rs]"

datatype update_status = UpdDone | UpdTypeError | UpdRaised exn

text \<open>The inner loop over the SET clause, on one row; the row is returned as the loop left it.\<close>

fun update_row :: "py_prims \<Rightarrow> table \<Rightarrow> (string \<times> pyval) list \<Rightarrow> row \<Rightarrow> update_status \<times> row" where
  "update_row fp t [] r = (UpdDone, r)"
| "update_row fp t ((col, new_val) # sv) r =
     (if col \<in> set (column_names t)
      then (case map_of (column_types t) col of
              None \<Rightarrow> (UpdRaised KeyError, r)
            | Some ty \<Rightarrow>
                (case convert_value fp new_val ty of
                   Return converted \<Rightarrow> update_row fp t sv (AList.update col converted r)
                 | Raise ValueError \<Rightarrow> (UpdTypeError, r)
                 | Raise e \<Rightarrow> (UpdRaised e, r)))
      else update_row fp t sv r)"

text \<open>The outer loop over the matched positions.\<close>

fun update_rows :: "py_prims \<Rightarrow> table \<Rightarrow> (string \<times> pyval) list \<Rightarrow> nat list \<Rightarrow> row list
    \<Rightarrow> update_status \<times> row list" where
  "update_rows fp t sv [] rs = (UpdDone, rs)"
| "update_rows fp t sv (idx # idxs) rs =
     (case update_row fp t sv (rs ! idx) of
        (UpdDone, r) \<Rightarrow> update_rows fp t sv idxs (rs[idx := r])
      | (st, r) \<Rightarrow> (st, rs[idx := r]))"

definition Table_update :: "py_prims \<Rightarrow> table \<Rightarrow> (string \<times> pyval) list \<Rightarrow> predicate option
    \<Rightarrow> result outcome \<times> table" where
  "Table_update fp t set_values wh =
     (case wh of
        None \<Rightarrow> (Return (failure UpdateWithoutWhere), t)
      | Some w \<Rightarrow>
          (let rows_to_update = matching w (rows t) in
           if rows_to_update = [] then (Return (ok (Updated 0)), t)
           else case update_rows fp t set_values rows_to_update (rows t) of
                  (UpdDone, rs) \<Rightarrow> (Return (ok (Updated (length rows_to_update))), t\<lparr>rows := rs\<rparr>)
                | (UpdTypeError, rs) \<Rightarrow> (Return (failure TypeErrorMsg), t\<lparr>rows := rs\<rparr>)
                | (UpdRaised e, rs) \<Rightarrow> (Raise e, t\<lparr>rows := rs\<rparr>)))"

subsection \<open>delete\<close>

text \<open>
  The index clean-up after one \<open>pop\<close>:
  \<open>for col in self.unique_columns: ... del self.unique_indexes[col][col_val]\<close>.
\<close>

fun del_unique :: "row \<Rightarrow> string list \<Rightarrow> (string \<times> index) list
    \<Rightarrow> exn option \<times> (string \<times> index) list" where
  "del_unique r [] uix = (None, uix)"
| "del_unique r (col # cols) uix =
     (case map_of r col of
        None \<Rightarrow> (Some KeyError, uix)
      | Some col_val \<Rightarrow>
          (case map_of uix col of
             None \<Rightarrow> (Some KeyError, uix)
           | Some ix \<Rightarrow>
               del_unique r cols
                 (if idx_mem col_val ix then AList.update col (idx_del col_val ix) uix else uix)))"

text \<open>\<open>self.rows.pop(idx)\<close> leaves the rows before and after position \<open>idx\<close>.\<close>

definition pop :: "nat \<Rightarrow> 'a list \<Rightarrow> 'a list" where
  "pop idx xs = take idx xs @ drop (Suc idx) xs"

fun delete_loop :: "table \<Rightarrow> nat list \<Rightarrow> exn option \<times> table" where
  "delete_loop t [] = (None, t)"
| "delete_loop t (idx # idxs) =
     (if length (rows t) \<le> idx then (Some IndexError, t)
      else
        (let r = rows t ! idx;
             t1 = t\<lparr>rows := pop idx (rows t)\<rparr>
         in case map_of r (primary_key t1) of
              None \<Rightarrow> (Some KeyError, t1)
            | Some pk_val \<Rightarrow>
                (let t2 = (if idx_mem pk_val (primary_index t1)
                           then t1\<lparr>primary_index := idx_del pk_val (primary_index t1)\<rparr>
                           else t1);
                     du = del_unique r (unique_columns t2) (unique_indexes t2);
                     t3 = t2\<lparr>unique_indexes := snd du\<rparr>
                 in if fst du = None then delete_loop t3 idxs else (fst du, t3))))"

text \<open>\<open>_rebuild_indexes\<close>: clear every index, then one pass over the rows.\<close>

fun clear_unique :: "string list \<Rightarrow> (string \<times> index) list \<Rightarrow> exn option \<times> (string \<times> index) list" where
  "clear_unique [] uix = (None, uix)"
| "clear_unique (col # cols) uix =
     (case map_of uix col of
        None \<Rightarrow> (Some KeyError, uix)
      | Some ix \<Rightarrow> clear_unique cols (AList.update col [] uix))"

fun rebuild_loop :: "table \<Rightarrow> nat \<Rightarrow> row list \<Rightarrow> exn option \<times> table" where
  "rebuild_loop t idx [] = (None, t)"
| "rebuild_loop t idx (r # rs) =
     (case map_of r (primary_key t) of
        None \<Rightarrow> (Some KeyError, t)
      | Some pk_val \<Rightarrow>
          (let t1 = t\<lparr>primary_index := idx_set pk_val idx (primary_index t)\<rparr>;
               su = set_unique r idx (unique_columns t1) (unique_indexes t1);
               t2 = t1\<lparr>unique_indexes := snd su\<rparr>
           in if fst su = None then rebuild_loop t2 (Suc idx) rs else (fst su, t2)))"

definition rebuild_indexes :: "table \<Rightarrow> exn option \<times> table" where
  "rebuild_indexes t =
     (let t1 = t\<lparr>primary_index := []\<rparr>;
          cu = clear_unique (unique_columns t1) (unique_indexes t1);
          t2 = t1\<lparr>unique_indexes := snd cu\<rparr>
      in if fst cu = None then rebuild_loop t2 0 (rows t2) else (fst cu, t2))"

definition Table_delete :: "table \<Rightarrow> predicate option \<Rightarrow> result outcome \<times> table" where
  "Table_delete t wh =
     (case wh of
        None \<Rightarrow> (Return (failure DeleteWithoutWhere), t)
      | Some w \<Rightarrow>
          (let rows_to_delete = matching w (rows t) in
           if rows_to_delete = [] then (Return (ok (Deleted 0)), t)
           else
             (let dl = delete_loop t (rev (sort rows_to_delete)) in
              case fst dl of
                Some e \<Rightarrow> (Raise e, snd dl)
              | None \<Rightarrow>
                  (let rb = rebuild_indexes (snd dl) in
                   case fst rb of
                     Some e \<Rightarrow> (Raise e, snd rb)
                   | None \<Rightarrow> (Return (ok (Deleted (length rows_to_delete))), snd rb)))))"

section \<open>The executor's join (src/database.py)\<close>

type_synonym database = "(string \<times> table) list"

definition get_table :: "database \<Rightarrow> string \<Rightarrow> table option" where
  "get_table db n = map_of db n"

text \<open>The fields of a parsed \<open>SELECT_JOIN\<close> statement that the executor reads.\<close>

record join_query =
  jq_columns :: "string list"
  left_table :: string
  right_table :: string
  left_column :: string
  right_column :: string
  jq_where :: "predicate option"

definition prefixed :: "string \<Rightarrow> string \<Rightarrow> string" where
  "prefixed tname col = tname @ ''.'' @ col"

text \<open>\<open>for col in table.column_names: merged_row[f"{tname}.{col}"] = src[col]\<close>\<close>

fun add_prefixed :: "string \<Rightarrow> string list \<Rightarrow> row \<Rightarrow> row \<Rightarrow> row outcome" where
  "add_prefixed tname [] src merged_row = Return merged_row"
| "add_prefixed tname (col # cols) src merged_row =
     (case map_of src col of
        None \<Rightarrow> Raise KeyError
      | Some v \<Rightarrow> add_prefixed tname cols src (AList.update (prefixed tname col) v merged_row))"

definition merge_rows :: "join_query \<Rightarrow> table \<Rightarrow> table \<Rightarrow> row \<Rightarrow> row \<Rightarrow> row outcome" where
  "merge_rows q lt rt left_row right_row =
     (case add_prefixed (left_table q) (column_names lt) left_row [] of
        Raise e \<Rightarrow> Raise e
      | Return m \<Rightarrow> add_prefixed (right_table q) (column_names rt) right_row m)"

text \<open>The inner loop over the right table's rows, for one left row.\<close>

fun join_right :: "join_query \<Rightarrow> table \<Rightarrow> table \<Rightarrow> row \<Rightarrow> pyval \<Rightarrow> row list \<Rightarrow> row list
    \<Rightarrow> row list outcome" where
  "join_right q lt rt left_row left_val [] joined_rows = Return joined_rows"
| "join_right q lt rt left_row left_val (right_row # rs) joined_rows =
     (case map_of right_row (right_column q) of
        None \<Rightarrow> Raise KeyError
      | Some right_val \<Rightarrow>
          (if py_eq left_val right_val
           then (case merge_rows q lt rt left_row right_row of
                   Raise e \<Rightarrow> Raise e
                 | Return merged_row \<Rightarrow>
                     join_right q lt rt left_row left_val rs (joined_rows @ [merged_row]))
           else join_right q lt rt left_row left_val rs joined_rows))"

text \<open>The outer loop over the left table's rows.\<close>

fun join_left :: "join_query \<Rightarrow> table \<Rightarrow> table \<Rightarrow> row list \<Rightarrow> row list \<Rightarrow> row list outcome" where
  "join_left q lt rt [] joined_rows = Return joined_rows"
| "join_left q lt rt (left_row # ls) joined_rows =
     (case map_of left_row (left_column q) of
        None \<Rightarrow> Raise KeyError
      | Some left_val \<Rightarrow>
          (case join_right q lt rt left_row left_val (rows rt) joined_rows of
             Raise e \<Rightarrow> Raise e
           | Return joined_rows' \<Rightarrow> join_left q lt rt ls joined_rows'))"

definition handle_select_join :: "database \<Rightarrow> join_query \<Rightarrow> result outcome" where
  "handle_select_join db q =
     (case get_table db (left_table q) of
        None \<Rightarrow> Return (failure (TableDoesNotExist (left_table q)))
      | Some lt \<Rightarrow>
         (case get_table db (right_table q) of
            None \<Rightarrow> Return (failure (TableDoesNotExist (right_table q)))
          | Some rt \<Rightarrow>
             (if left_column q \<notin> set (column_names lt)
              then Return (failure (ColumnNotFound (left_column q) (left_table q)))
              else if right_column q \<notin> set (column_names rt)
              then Return (failure (ColumnNotFound (right_column q) (right_table q)))
              else
               (case join_left q lt rt (rows lt) [] of
                  Raise e \<Rightarrow> Raise e
                | Return joined_rows \<Rightarrow>
                   (let filtered = (case jq_where q of
                                      None \<Rightarrow> joined_rows
                                    | Some w \<Rightarrow> filter (matches w) joined_rows);
                        output_columns =
                          (if jq_columns q = [''*'']
                           then map (prefixed (left_table q)) (column_names lt)
                                @ map (prefixed (right_table q)) (column_names rt)
                           else jq_columns q);
                        result_data = map (\<lambda>r. map (row_get r) output_columns) filtered
                    in Return \<lparr>success = True, message = SelectedFromJoin (length result_data),
                               out_columns = Some output_columns,
                               out_data = Some result_data\<rparr>)))))"

text \<open>\<open>execute\<close> turns any exception of a handler into a failure result.\<close>

definition execute_guard :: "result outcome \<Rightarrow> result" where
  "execute_guard r = (case r of Return res \<Rightarrow> res | Raise e \<Rightarrow> failure (ErrorExecutingQuery e))"

section \<open>The parser's WHERE clause (src/parser.py)\<close>

text \<open>
  The characters that \<open>\w\<close> matches, for code points below 256: letters, digits and
  other numeric characters, and the underscore.
\<close>

definition isword :: "char \<Rightarrow> bool" where
  "isword c = (let n = (of_char c :: nat) in
     (48 \<le> n \<and> n \<le> 57) \<or> (65 \<le> n \<and> n \<le> 90) \<or> (97 \<le> n \<and> n \<le> 122) \<or> n = 95
     \<or> n = 170 \<or> n = 178 \<or> n = 179 \<or> n = 181 \<or> n = 185 \<or> n = 186
     \<or> (188 \<le> n \<and> n \<le> 190) \<or> (192 \<le> n \<and> n \<le> 214) \<or> (216 \<le> n \<and> n \<le> 246)
     \<or> (248 \<le> n \<and> n \<le> 255))"

definition newline :: char where
  "newline = CHR 0x0A"

text \<open>
  \<open>_parse_where\<close>: \<open>re.match(r'(\w+)\s*=\s*(.+)', where_str.strip())\<close>. The first group is
  the longest run of word characters at the start, which must not be empty; then
  whitespace, the equals sign, whitespace; the second group runs to the end of the line
  and must not be empty. Without a match the result is \<open>None\<close>.
\<close>

definition parse_where :: "py_prims \<Rightarrow> string \<Rightarrow> predicate option" where
  "parse_where fp where_str =
     (let s = strip where_str;
          column = takeWhile isword s;
          after_column = dropWhile isspace (dropWhile isword s)
      in if column = [] then None
         else (case after_column of
                 [] \<Rightarrow> None
               | c # after_eq \<Rightarrow>
                   (if c \<noteq> CHR ''='' then None
                    else (let g = takeWhile (\<lambda>x. x \<noteq> newline) (dropWhile isspace after_eq)
                          in if g = [] then None
                             else Some (column, parse_single_value fp (strip g))))))"

text \<open>
  What \<open>_parse_select_with_join\<close> does with the text of its optional WHERE group
  (\<open>None\<close> where the group did not take part in the match).
\<close>

definition join_where_of :: "py_prims \<Rightarrow> string option \<Rightarrow> predicate option" where
  "join_where_of fp where_str =
     (case where_str of
        None \<Rightarrow> None
      | Some ws \<Rightarrow> if ws = [] then None else parse_where fp ws)"

section \<open>Notions used in the statements\<close>

text \<open>The SET assignments whose column the table has, and whether one of them converts.\<close>

definition known_assignments :: "table \<Rightarrow> (string \<times> pyval) list \<Rightarrow> (string \<times> pyval) list" where
  "known_assignments t sv = filter (\<lambda>a. fst a \<in> set (column_names t)) sv"

definition converts :: "py_prims \<Rightarrow> table \<Rightarrow> string \<times> pyval \<Rightarrow> bool" where
  "converts fp t a =
     (case map_of (column_types t) (fst a) of
        None \<Rightarrow> False
      | Some ty \<Rightarrow> (case convert_value fp (snd a) ty of Return x \<Rightarrow> True | Raise e \<Rightarrow> False))"

text \<open>
  The segments of a value list: the text between commas that stand outside quotes,
  without the quote characters that open or close a quoted stretch.
\<close>

fun split_segments :: "string \<Rightarrow> char option \<Rightarrow> string \<Rightarrow> string list" where
  "split_segments [] q cur = [cur]"
| "split_segments (c # cs) None cur =
     (if c = dquote \<or> c = squote then split_segments cs (Some c) cur
      else if c = CHR '','' then cur # split_segments cs None []
      else split_segments cs None (cur @ [c]))"
| "split_segments (c # cs) (Some q) cur =
     (if c = q then split_segments cs None cur
      else split_segments cs (Some q) (cur @ [c]))"

definition trailing_empty :: string where
  "trailing_empty = ''1, '' @ [squote, squote]"

definition quoted_number :: string where
  "quoted_number = ''1, '' @ [squote] @ ''007'' @ [squote]"

definition two_columns :: table where
  "two_columns = Table_init ''t'' [(''id'', ''INT''), (''note'', ''TEXT'')] ''id'' []"

text \<open>
  Every stored row has an entry for each column of its table (as the rows that
  \<open>insert\<close> builds have), and the pairs of a left and a right row whose join-column
  values are equal under a given equality.
\<close>

definition rows_complete :: "table \<Rightarrow> bool" where
  "rows_complete t = (\<forall>r \<in> set (rows t). \<forall>c \<in> set (column_names t). map_of r c \<noteq> None)"

definition join_pairs :: "(pyval \<Rightarrow> pyval \<Rightarrow> bool) \<Rightarrow> join_query \<Rightarrow> table \<Rightarrow> table \<Rightarrow> (row \<times> row) list" where
  "join_pairs eq q lt rt =
     filter (\<lambda>(l, r). eq (row_get l (left_column q)) (row_get r (right_column q)))
       (List.product (rows lt) (rows rt))"

text \<open>
  The index that reflects a column of the stored rows exactly: one entry per row, in
  the order of the rows, from the row's value in the column to the row's position.
\<close>

definition index_from :: "nat \<Rightarrow> string \<Rightarrow> row list \<Rightarrow> index" where
  "index_from k col rs = map (\<lambda>(i, r). (row_get r col, i)) (enumerate k rs)"

definition index_of :: "string \<Rightarrow> row list \<Rightarrow> index" where
  "index_of col rs = index_from 0 col rs"

text \<open>The values of a column over the rows, up to \<open>==\<close>, without the NaNs.\<close>

definition col_keys :: "string \<Rightarrow> row list \<Rightarrow> pykey list" where
  "col_keys col rs = filter (\<lambda>k. k \<noteq> KNaN) (map (\<lambda>r. key_of (row_get r col)) rs)"

text \<open>The invariant of a table that only insert and delete have changed.\<close>

definition uix_of :: "string list \<Rightarrow> row list \<Rightarrow> (string \<times> index) list" where
  "uix_of ucols rs = map (\<lambda>c. (c, index_of c rs)) ucols"

definition table_inv :: "table \<Rightarrow> bool" where
  "table_inv t =
     (primary_index t = index_of (primary_key t) (rows t)
      \<and> unique_indexes t = uix_of (unique_columns t) (rows t)
      \<and> distinct (unique_columns t)
      \<and> distinct (col_keys (primary_key t) (rows t))
      \<and> (\<forall>c \<in> set (unique_columns t). distinct (col_keys c (rows t)))
      \<and> (\<forall>r \<in> set (rows t). map_of r (primary_key t) \<noteq> None
            \<and> (\<forall>c \<in> set (unique_columns t). map_of r c \<noteq> None)))"

text \<open>What the loops of delete need of a table, and keep.\<close>

definition rows_ok :: "table \<Rightarrow> row list \<Rightarrow> bool" where
  "rows_ok t rs =
     (distinct (col_keys (primary_key t) rs)
      \<and> (\<forall>c \<in> set (unique_columns t). distinct (col_keys c rs))
      \<and> (\<forall>r \<in> set rs. map_of r (primary_key t) \<noteq> None
            \<and> (\<forall>c \<in> set (unique_columns t). map_of r c \<noteq> None)))"

definition loop_ok :: "table \<Rightarrow> bool" where
  "loop_ok t = (map fst (unique_indexes t) = unique_columns t \<and> distinct (unique_columns t)
                \<and> rows_ok t (rows t))"

text \<open>Sequences of insert and delete calls on a table; the results of the calls are dropped.\<close>

datatype table_op = Insert "pyval list" | Delete "predicate option"

fun apply_op :: "py_prims \<Rightarrow> table_op \<Rightarrow> table \<Rightarrow> table" where
  "apply_op fp (Insert vs) t = snd (Table_insert fp t vs)"
| "apply_op fp (Delete wh) t = snd (Table_delete t wh)"

definition run :: "py_prims \<Rightarrow> table \<Rightarrow> table_op list \<Rightarrow> table" where
  "run fp t ops = fold (apply_op fp) ops t"

text \<open>
  An index is exact for a column: it is the reflection of the column, and looking up
  the value of any stored row gives the position of that row (for a value that is equal
  to itself: a lookup compares with \<open>==\<close>, and every value but NaN is).
\<close>

definition exact_index :: "index \<Rightarrow> string \<Rightarrow> row list \<Rightarrow> bool" where
  "exact_index ix col rs =
     (ix = index_of col rs
      \<and> (\<forall>i < length rs. py_eq (row_get (rs ! i) col) (row_get (rs ! i) col) \<longrightarrow>
             idx_get ix (row_get (rs ! i) col) = Some i))"

section \<open>Sample data\<close>

text \<open>
  A choice of the interpreter's parameters for evaluating examples: integers convert
  to floats exactly, \<open>nan\<close> is the one float literal that is read, and the digit limit is
  the default one. The examples depend on no other property of it.
\<close>

definition sample_prims :: py_prims where
  "sample_prims =
     \<lparr>float_of_int = (\<lambda>i. Some (Fin (of_int i))),
      float_of_str = (\<lambda>s. if s = ''nan'' then Some NaN else None),
      str_of_float = (\<lambda>f. ''float''),
      int_max_str_digits = 4300\<rparr>"

definition users0 :: table where
  "users0 = Table_init ''users'' [(''id'', ''INT''), (''name'', ''TEXT''), (''email'', ''TEXT'')]
               ''id'' [''email'']"

definition users1 :: table where
  "users1 = snd (Table_insert sample_prims users0 [PInt 1, PStr ''John'', PStr ''j@x.com''])"

definition shop_users :: table where
  "shop_users = (Table_init ''users'' [(''id'', ''INT''), (''name'', ''TEXT'')] ''id'' [])
     \<lparr>rows := [[(''id'', PInt 1), (''name'', PStr ''John Doe'')],
               [(''id'', PInt 2), (''name'', PStr ''Jane Smith'')]],
      primary_index := [(PInt 1, 0), (PInt 2, 1)]\<rparr>"

definition shop_orders :: table where
  "shop_orders =
     (Table_init ''orders'' [(''id'', ''INT''), (''user_id'', ''INT''), (''product'', ''TEXT'')] ''id'' [])
     \<lparr>rows := [[(''id'', PInt 101), (''user_id'', PInt 1), (''product'', PStr ''Laptop'')],
               [(''id'', PInt 102), (''user_id'', PInt 1), (''product'', PStr ''Mouse'')],
               [(''id'', PInt 103), (''user_id'', PInt 2), (''product'', PStr ''Keyboard'')]],
      primary_index := [(PInt 101, 0), (PInt 102, 1), (PInt 103, 2)]\<rparr>"

definition shop_db :: database where
  "shop_db = [(''users'', shop_users), (''orders'', shop_orders)]"

definition shop_query :: join_query where
  "shop_query = \<lparr>jq_columns = [''*''], left_table = ''users'', right_table = ''orders'',
                  left_column = ''id'', right_column = ''user_id'', jq_where = None\<rparr>"

definition mixed_users :: table where
  "mixed_users = snd (Table_insert sample_prims
                        (Table_init ''users'' [(''id'', ''INT'')] ''id'' []) [PInt 1])"

definition mixed_orders :: table where
  "mixed_orders = snd (Table_insert sample_prims
                         (Table_init ''orders'' [(''id'', ''INT''), (''user_id'', ''FLOAT'')] ''id'' [])
                         [PInt 10, PInt 1])"

definition mixed_db :: database where
  "mixed_db = [(''users'', mixed_users), (''orders'', mixed_orders)]"

definition sample_ops :: "table_op list" where
  "sample_ops = [Insert [PInt 1, PStr ''John'', PStr ''j@x.com''],
                 Insert [PInt 2, PStr ''Jane'', PStr ''jane@x.com''],
                 Delete (Some (''id'', PInt 1))]"



section \<open>Properties\<close>

subsection \<open>Equality and index lookups\<close>

lemma py_eq_refl: "key_of a \<noteq> KNaN \<Longrightarrow> py_eq a a"
  by (simp add: py_eq_def)

lemma py_eq_sym: "py_eq a b \<Longrightarrow> py_eq b a"
  by (auto simp: py_eq_def)

lemma py_eq_trans: "py_eq a b \<Longrightarrow> py_eq b c \<Longrightarrow> py_eq a c"
  by (auto simp: py_eq_def)


subsection \<open>The unique-column loops of insert\<close>

lemma check_unique_ok_keys:
  "check_unique uix r cols = UniqueOk \<Longrightarrow>
     \<forall>c \<in> set cols. map_of r c \<noteq> None \<and> map_of uix c \<noteq> None"
  by (induction cols) (auto split: option.splits if_splits)

lemma set_unique_no_raise:
  "\<forall>c \<in> set cols. map_of r c \<noteq> None \<and> map_of uix c \<noteq> None \<Longrightarrow>
     fst (set_unique r i cols uix) = None"
  by (induction cols arbitrary: uix) (auto split: option.splits simp: update_conv')

lemma users1_eval:
  "users1 = users0\<lparr>rows := [[(''id'', PInt 1), (''name'', PStr ''John''), (''email'', PStr ''j@x.com'')]],
                   primary_index := [(PInt 1, 0)],
                   unique_indexes := [(''email'', [(PStr ''j@x.com'', 0)])]\<rparr>"
  by (simp add: users1_def users0_def Table_insert_def Table_init_def convert_value_def
      upper_def upper_char_def Let_def)

subsection \<open>Update and delete without a predicate\<close>

text \<open>
  C5. Called without a WHERE predicate, \<open>update\<close> and \<open>delete\<close> return a failure result
  and the table (rows, primary index, unique indexes) is the one they were given.
\<close>

theorem update_delete_without_where:
  "Table_update fp t set_values None = (Return (failure UpdateWithoutWhere), t)
   \<and> Table_delete t None = (Return (failure DeleteWithoutWhere), t)
   \<and> success (failure UpdateWithoutWhere) = False
   \<and> success (failure DeleteWithoutWhere) = False"
  by (simp add: Table_update_def Table_delete_def failure_def)

subsection \<open>Atomicity of insert\<close>

text \<open>
  C2. Whenever \<open>insert\<close> does not return a success result (it returns a failure result, or
  an exception leaves it), the table after the call is the table before it: no row is
  appended and no index is touched.
\<close>

theorem insert_atomic:
  assumes "Table_insert fp t vs = (out, t')"
    and "\<forall>res. out = Return res \<longrightarrow> \<not> success res"
  shows "t' = t"
proof -
  have no_raise: "fst (set_unique r i (unique_columns t) uix) = None"
    if "check_unique uix r (unique_columns t) = UniqueOk" for r i uix
    using check_unique_ok_keys [OF that] by (rule set_unique_no_raise)
  show ?thesis
    using assms no_raise
    by (auto simp: Table_insert_def Let_def ok_def
        split: if_splits row_build.splits option.splits unique_check.splits)
qed

theorem insert_atomic_witness:
  "fst (Table_insert sample_prims users1 [PStr ''1'', PStr ''Jane'', PStr ''jane@x.com''])
     = Return (failure (PrimaryKeyViolation (PInt 1)))
   \<and> snd (Table_insert sample_prims users1 [PStr ''1'', PStr ''Jane'', PStr ''jane@x.com''])
     = users1"
proof -
  let ?c = "Table_insert sample_prims users1 [PStr ''1'', PStr ''Jane'', PStr ''jane@x.com'']"
  have out: "fst ?c = Return (failure (PrimaryKeyViolation (PInt 1)))"
    by (simp add: users1_eval users0_def Table_init_def Table_insert_def convert_value_def
        upper_def upper_char_def Let_def int_of_str_def int_strip_def int_space_def exceeds_limit_def strip_def isspace_def int_unsigned_def
        isdigit_def digit_val_def py_eq_def)
  have call: "?c = (Return (failure (PrimaryKeyViolation (PInt 1))), snd ?c)"
    using out by (simp add: prod_eq_iff)
  have fails: "\<forall>res. Return (failure (PrimaryKeyViolation (PInt 1))) = Return res
                 \<longrightarrow> \<not> success res"
    by (simp add: failure_def)
  from insert_atomic [OF call fails] out show ?thesis by simp
qed

subsection \<open>Insert, then select by primary key\<close>







subsection \<open>Update\<close>

lemma update_row_known:
  "update_row fp t (known_assignments t sv) r = update_row fp t sv r"
  by (induction sv arbitrary: r)
     (auto simp: known_assignments_def split: option.splits outcome.splits exn.splits)

lemma update_rows_known:
  "update_rows fp t (known_assignments t sv) idxs rs = update_rows fp t sv idxs rs"
  by (induction idxs arbitrary: rs) (simp_all add: update_row_known split: prod.splits update_status.splits)

lemma update_row_append:
  "update_row fp t (pre @ rest) r =
     (case update_row fp t pre r of
        (UpdDone, r1) \<Rightarrow> update_row fp t rest r1
      | (st, r1) \<Rightarrow> (st, r1))"
  by (induction pre arbitrary: r)
     (auto split: option.split outcome.split exn.split)

lemma update_row_unknown_col:
  "col \<notin> set (column_names t) \<Longrightarrow> map_of (snd (update_row fp t sv r)) col = map_of r col"
  by (induction sv arbitrary: r)
     (auto simp: update_conv' split: option.splits outcome.splits exn.splits)

lemma update_row_converts:
  "\<forall>a \<in> set sv. fst a \<in> set (column_names t) \<longrightarrow> converts fp t a \<Longrightarrow>
     fst (update_row fp t sv r) = UpdDone"
  by (induction sv arbitrary: r)
     (auto simp: converts_def split: option.splits outcome.splits exn.splits)

lemma update_rows_converts:
  "\<forall>a \<in> set sv. fst a \<in> set (column_names t) \<longrightarrow> converts fp t a \<Longrightarrow>
     fst (update_rows fp t sv idxs rs) = UpdDone"
proof (induction idxs arbitrary: rs)
  case Nil
  then show ?case by simp
next
  case (Cons idx idxs)
  from update_row_converts [OF Cons.prems, of "rs ! idx"]
  obtain r where "update_row fp t sv (rs ! idx) = (UpdDone, r)"
    by (cases "update_row fp t sv (rs ! idx)") auto
  with Cons show ?case by simp
qed

lemma list_update_same_image:
  "f r = f (rs ! idx) \<Longrightarrow> map f (rs[idx := r]) = map f rs"
  by (metis list_update_beyond list_update_id map_update not_le_imp_less)

lemma update_rows_unknown_col:
  "col \<notin> set (column_names t) \<Longrightarrow>
     map (\<lambda>r. map_of r col) (snd (update_rows fp t sv idxs rs)) = map (\<lambda>r. map_of r col) rs"
proof (induction idxs arbitrary: rs)
  case Nil
  then show ?case by simp
next
  case (Cons idx idxs)
  obtain st r where u: "update_row fp t sv (rs ! idx) = (st, r)"
    by (cases "update_row fp t sv (rs ! idx)") auto
  from update_row_unknown_col [OF Cons.prems, of fp sv "rs ! idx"] u
  have "map_of r col = map_of (rs ! idx) col" by simp
  then have same: "map (\<lambda>r. map_of r col) (rs[idx := r]) = map (\<lambda>r. map_of r col) rs"
    by (rule list_update_same_image)
  show ?case
    using u same Cons.IH [OF Cons.prems, of "rs[idx := r]"]
    by (cases st) simp_all
qed

text \<open>
  C9. A SET assignment to a column the table does not have is skipped without an error:
  the call behaves as the call without such assignments; when the assignments to the
  table's own columns convert, it returns success with the message \<open>Updated n row(s)\<close>
  for the \<open>n\<close> rows the predicate matches; and no row gains or changes an entry for a
  column the table does not have.
\<close>

theorem update_unknown_column_skipped:
  "Table_update fp t set_values wh = Table_update fp t (known_assignments t set_values) wh
   \<and> ((\<forall>a \<in> set set_values. fst a \<in> set (column_names t) \<longrightarrow> converts fp t a) \<longrightarrow>
        fst (Table_update fp t set_values (Some w)) =
          Return (ok (Updated (length (matching w (rows t))))))
   \<and> (\<forall>col. col \<notin> set (column_names t) \<longrightarrow>
         map (\<lambda>r. map_of r col) (rows (snd (Table_update fp t set_values wh)))
           = map (\<lambda>r. map_of r col) (rows t))"
proof (intro conjI allI impI)
  show "Table_update fp t set_values wh = Table_update fp t (known_assignments t set_values) wh"
    by (cases wh) (simp_all add: Table_update_def Let_def update_rows_known)
next
  assume c: "\<forall>a \<in> set set_values. fst a \<in> set (column_names t) \<longrightarrow> converts fp t a"
  obtain st rs where u: "update_rows fp t set_values (matching w (rows t)) (rows t) = (st, rs)"
    by (cases "update_rows fp t set_values (matching w (rows t)) (rows t)") auto
  with update_rows_converts [OF c, of "matching w (rows t)" "rows t"] have "st = UpdDone" by simp
  with u show "fst (Table_update fp t set_values (Some w)) =
          Return (ok (Updated (length (matching w (rows t)))))"
    by (simp add: Table_update_def Let_def)
next
  fix col assume n: "col \<notin> set (column_names t)"
  show "map (\<lambda>r. map_of r col) (rows (snd (Table_update fp t set_values wh)))
           = map (\<lambda>r. map_of r col) (rows t)"
  proof (cases wh)
    case None
    then show ?thesis by (simp add: Table_update_def)
  next
    case (Some w')
    obtain st rs where u: "update_rows fp t set_values (matching w' (rows t)) (rows t) = (st, rs)"
      by (cases "update_rows fp t set_values (matching w' (rows t)) (rows t)") auto
    from update_rows_unknown_col [OF n, of fp set_values "matching w' (rows t)" "rows t"] u
    have "map (\<lambda>r. map_of r col) rs = map (\<lambda>r. map_of r col) (rows t)" by simp
    with u Some show ?thesis
      by (cases st) (simp_all add: Table_update_def Let_def)
  qed
qed

text \<open>
  C8. When the predicate matches at least one row and the SET clause reaches an
  assignment whose conversion fails, after the earlier assignments \<open>pre\<close> were carried
  out on the first matched row, the call fails (a failure result for the \<open>ValueError\<close> of
  \<open>convert_value\<close>; an exception, which \<open>execute\<close> reports as a failure, otherwise) and
  the storage keeps the first matched row as the earlier assignments left it.
\<close>

theorem update_not_atomic:
  assumes "matching w (rows t) = i0 # others"
    and "set_values = pre @ (col, v) # post"
    and "col \<in> set (column_names t)"
    and "map_of (column_types t) col = Some ty"
    and "convert_value fp v ty = Raise e"
    and "update_row fp t pre (rows t ! i0) = (UpdDone, r')"
  shows "Table_update fp t set_values (Some w) =
           (if e = ValueError then Return (failure TypeErrorMsg) else Raise e,
            t\<lparr>rows := (rows t)[i0 := r']\<rparr>)
         \<and> \<not> success (execute_guard (fst (Table_update fp t set_values (Some w))))"
proof -
  have "update_row fp t set_values (rows t ! i0) =
          (if e = ValueError then UpdTypeError else UpdRaised e, r')"
    using assms(2-6) by (cases e) (simp_all add: update_row_append)
  then have "update_rows fp t set_values (i0 # others) (rows t) =
          (if e = ValueError then UpdTypeError else UpdRaised e, (rows t)[i0 := r'])"
    by simp
  then show ?thesis
    using assms(1) by (simp add: Table_update_def execute_guard_def failure_def)
qed


lemma users1_matching_id: "matching (''id'', PInt 1) (rows users1) = [0]"
  by (simp add: users1_eval matching_def matches_def row_get_def py_eq_def)

lemma users0_fields:
  "column_names users0 = [''id'', ''name'', ''email'']"
  "column_types users0 = [(''id'', ''INT''), (''name'', ''TEXT''), (''email'', ''TEXT'')]"
  by (simp_all add: users0_def Table_init_def)

theorem update_not_atomic_witness:
  "Table_update sample_prims users1
       [(''name'', PStr ''Jon''), (''id'', PStr ''abc''), (''email'', PStr ''z'')]
       (Some (''id'', PInt 1))
     = (Return (failure TypeErrorMsg),
        users1\<lparr>rows := [[(''id'', PInt 1), (''name'', PStr ''Jon''), (''email'', PStr ''j@x.com'')]]\<rparr>)
   \<and> rows users1 = [[(''id'', PInt 1), (''name'', PStr ''John''), (''email'', PStr ''j@x.com'')]]"
proof -
  have sv: "[(''name'', PStr ''Jon''), (''id'', PStr ''abc''), (''email'', PStr ''z'')]
              = [(''name'', PStr ''Jon'')] @ (''id'', PStr ''abc'') # [(''email'', PStr ''z'')]"
    by simp
  have known: "''id'' \<in> set (column_names users1)"
    by (simp add: users1_eval users0_fields)
  have ty: "map_of (column_types users1) ''id'' = Some ''INT''"
    by (simp add: users1_eval users0_fields)
  have bad: "convert_value sample_prims (PStr ''abc'') ''INT'' = Raise ValueError"
    by (simp add: convert_value_def upper_def upper_char_def int_of_str_def int_strip_def int_space_def exceeds_limit_def strip_def
        isspace_def int_unsigned_def isdigit_def)
  have pre: "update_row sample_prims users1 [(''name'', PStr ''Jon'')] (rows users1 ! 0)
               = (UpdDone, [(''id'', PInt 1), (''name'', PStr ''Jon''), (''email'', PStr ''j@x.com'')])"
    by (simp add: users1_eval users0_fields convert_value_def upper_def upper_char_def)
  from update_not_atomic [OF users1_matching_id sv known ty bad pre]
  show ?thesis by (simp add: users1_eval)
qed

theorem update_unknown_column_skipped_witness:
  "fst (Table_update sample_prims users1 [(''nickname'', PStr ''J''), (''name'', PStr ''Jon'')]
          (Some (''id'', PInt 1))) = Return (ok (Updated 1))
   \<and> map (\<lambda>r. map_of r ''nickname'')
        (rows (snd (Table_update sample_prims users1
           [(''nickname'', PStr ''J''), (''name'', PStr ''Jon'')] (Some (''id'', PInt 1))))) = [None]
   \<and> ''nickname'' \<notin> set (column_names users1)"
proof -
  let ?sv = "[(''nickname'', PStr ''J''), (''name'', PStr ''Jon'')]"
  have conv: "\<forall>a \<in> set ?sv. fst a \<in> set (column_names users1) \<longrightarrow> converts sample_prims users1 a"
    by (simp add: users1_eval users0_fields converts_def convert_value_def upper_def upper_char_def)
  have unknown: "''nickname'' \<notin> set (column_names users1)"
    by (simp add: users1_eval users0_fields)
  note th = update_unknown_column_skipped
    [of sample_prims users1 ?sv "Some (''id'', PInt 1)" "(''id'', PInt 1)"]
  from th [THEN conjunct2, THEN conjunct1] conv
  have a: "fst (Table_update sample_prims users1 ?sv (Some (''id'', PInt 1)))
             = Return (ok (Updated (length (matching (''id'', PInt 1) (rows users1)))))"
    by (rule mp)
  from th [THEN conjunct2, THEN conjunct2] unknown
  have b: "map (\<lambda>r. map_of r ''nickname'')
             (rows (snd (Table_update sample_prims users1 ?sv (Some (''id'', PInt 1)))))
           = map (\<lambda>r. map_of r ''nickname'') (rows users1)"
    by blast
  have c: "map (\<lambda>r. map_of r ''nickname'') (rows users1) = [None]"
    by (simp add: users1_eval)
  from a b c unknown show ?thesis
    by (simp add: users1_matching_id)
qed

subsection \<open>The value scanner\<close>

lemma split_segments_nonempty [simp]: "split_segments s q cur \<noteq> []"
  by (induction s q cur rule: split_segments.induct) auto

lemma scan_fold:
  "in_quotes st = (quote_char st \<noteq> None) \<Longrightarrow>
   vals (fold (scan_char fp) s st) =
     vals st @ map (\<lambda>seg. parse_single_value fp (strip seg))
                 (butlast (split_segments s (quote_char st) (current st)))
   \<and> current (fold (scan_char fp) s st) = last (split_segments s (quote_char st) (current st))"
proof (induction s arbitrary: st)
  case Nil
  then show ?case by simp
next
  case (Cons c s)
  show ?case
  proof (cases "quote_char st")
    case None
    with Cons.prems have nq: "\<not> in_quotes st" by simp
    have step: "in_quotes (scan_char fp c st) = (quote_char (scan_char fp c st) \<noteq> None)"
      using None nq by (simp add: scan_char_def)
    show ?thesis
      using Cons.IH [OF step] None nq
      by (auto simp: scan_char_def)
  next
    case (Some q)
    with Cons.prems have iq: "in_quotes st" by simp
    have step: "in_quotes (scan_char fp c st) = (quote_char (scan_char fp c st) \<noteq> None)"
      using Some iq by (simp add: scan_char_def)
    show ?thesis
      using Cons.IH [OF step] Some iq
      by (auto simp: scan_char_def)
  qed
qed

lemma parse_values_segments:
  "parse_values fp s =
     map (\<lambda>seg. parse_single_value fp (strip seg))
       (if strip (last (split_segments s None [])) \<noteq> [] then split_segments s None []
        else butlast (split_segments s None []))"
proof -
  have i: "in_quotes scan_init = (quote_char scan_init \<noteq> None)" by (simp add: scan_init_def)
  let ?st = "fold (scan_char fp) s scan_init"
  let ?segs = "split_segments s None []"
  from scan_fold [OF i, of fp s]
  have v: "vals ?st = map (\<lambda>seg. parse_single_value fp (strip seg)) (butlast ?segs)"
    and c: "current ?st = last ?segs"
    by (simp_all add: scan_init_def)
  let ?f = "\<lambda>seg. parse_single_value fp (strip seg)"
  have e: "butlast ?segs @ [last ?segs] = ?segs" by simp
  have "map ?f ?segs = map ?f (butlast ?segs @ [last ?segs])" by (simp only: e)
  then have m: "map ?f ?segs = map ?f (butlast ?segs) @ [?f (last ?segs)]"
    by (simp only: map_append list.map)
  show ?thesis
    by (simp add: parse_values_def Let_def v c m)
qed

text \<open>
  C10. When the last segment of a value list is empty or whitespace once the quotes are
  removed, it yields no value: the parsed list holds the values of the other segments
  only and is shorter than the list of segments. For the value list \<open>1, ''\<close> the parser
  returns \<open>[1]\<close>, and the insert into a table of two columns fails with
  \<open>Expected 2 values, got 1\<close>.
\<close>

theorem trailing_empty_segment_dropped:
  "(strip (last (split_segments s None [])) = [] \<longrightarrow>
      parse_values fp s = map (\<lambda>seg. parse_single_value fp (strip seg))
                            (butlast (split_segments s None []))
      \<and> length (parse_values fp s) < length (split_segments s None []))
   \<and> parse_values fp trailing_empty = [PInt 1]
   \<and> fst (Table_insert fp two_columns (parse_values fp trailing_empty))
       = Return (failure (ExpectedValues 2 1))"
proof (intro conjI impI)
  assume "strip (last (split_segments s None [])) = []"
  then show "parse_values fp s = map (\<lambda>seg. parse_single_value fp (strip seg))
                            (butlast (split_segments s None []))"
    by (simp add: parse_values_segments)
next
  assume "strip (last (split_segments s None [])) = []"
  then have "length (parse_values fp s) = length (butlast (split_segments s None []))"
    by (simp add: parse_values_segments)
  also have "\<dots> < length (split_segments s None [])"
    by (simp add: length_greater_0_conv [THEN iffD2])
  finally show "length (parse_values fp s) < length (split_segments s None [])" .
next
  show p: "parse_values fp trailing_empty = [PInt 1]"
    by (simp add: trailing_empty_def quoted_number_def parse_values_def scan_char_def scan_init_def squote_def dquote_def
        parse_single_value_def strip_def isspace_def startswith_def endswith_def
        int_of_str_def int_strip_def int_space_def exceeds_limit_def int_unsigned_def isdigit_def digit_val_def)
  show "fst (Table_insert fp two_columns (parse_values fp trailing_empty))
       = Return (failure (ExpectedValues 2 1))"
    by (simp only: p) (simp add: Table_insert_def two_columns_def Table_init_def numeral_2_eq_2)
qed

theorem trailing_empty_segment_dropped_witness:
  "strip (last (split_segments trailing_empty None [])) = []
   \<and> length (split_segments trailing_empty None []) = 2
   \<and> length (parse_values sample_prims trailing_empty) = 1"
proof -
  have seg: "split_segments trailing_empty None [] = [''1'', '' '']"
    by (simp add: trailing_empty_def squote_def dquote_def)
  have e: "strip (last (split_segments trailing_empty None [])) = []"
    by (simp add: seg strip_def isspace_def)
  from trailing_empty_segment_dropped [of trailing_empty sample_prims, THEN conjunct1] e
  have "parse_values sample_prims trailing_empty
          = map (\<lambda>seg. parse_single_value sample_prims (strip seg))
              (butlast (split_segments trailing_empty None []))"
    by blast
  then show ?thesis using e by (simp add: seg)
qed

text \<open>
  C4 (what the code does). For the value list \<open>1, '007'\<close> the scanner returns the integers
  1 and 7: it drops the quotes before \<open>_parse_single_value\<close> sees the token, while
  \<open>_parse_single_value\<close> on the quoted token \<open>'007'\<close> itself returns the text \<open>007\<close>. A
  TEXT column then stores the text \<open>7\<close>.
\<close>

theorem quoted_number_parsed_as_integer:
  "parse_values fp quoted_number = [PInt 1, PInt 7]
   \<and> parse_single_value fp (squote # ''007'' @ [squote]) = PStr ''007''
   \<and> convert_value fp (PInt 7) ''TEXT'' = Return (PStr ''7'')"
  by (simp add: trailing_empty_def quoted_number_def parse_values_def scan_char_def scan_init_def squote_def dquote_def
        parse_single_value_def strip_def isspace_def startswith_def endswith_def
        int_of_str_def int_strip_def int_space_def exceeds_limit_def int_unsigned_def isdigit_def digit_val_def convert_value_def
        upper_def upper_char_def str_of_int_def str_of_nat.simps digit_char_def)

subsection \<open>The join\<close>

lemma add_prefixed_returns:
  "\<forall>c \<in> set cols. map_of src c \<noteq> None \<Longrightarrow> \<exists>m'. add_prefixed tname cols src m = Return m'"
  by (induction cols arbitrary: m) auto

lemma merge_rows_returns:
  assumes "\<forall>c \<in> set (column_names lt). map_of l c \<noteq> None"
    and "\<forall>c \<in> set (column_names rt). map_of r c \<noteq> None"
  shows "\<exists>m. merge_rows q lt rt l r = Return m"
proof -
  from add_prefixed_returns [OF assms(1)] obtain m1 where
    "add_prefixed (left_table q) (column_names lt) l [] = Return m1" by blast
  moreover from add_prefixed_returns [OF assms(2)] obtain m2 where
    "add_prefixed (right_table q) (column_names rt) r m1 = Return m2" by blast
  ultimately show ?thesis by (simp add: merge_rows_def)
qed

lemma join_right_count:
  assumes "\<forall>c \<in> set (column_names lt). map_of l c \<noteq> None"
    and "\<forall>r \<in> set rs. \<forall>c \<in> set (column_names rt). map_of r c \<noteq> None"
    and "right_column q \<in> set (column_names rt)"
  shows "\<exists>ms. join_right q lt rt l lv rs acc = Return (acc @ ms)
           \<and> length ms = length (filter (\<lambda>r. py_eq lv (row_get r (right_column q))) rs)"
  using assms(2)
proof (induction rs arbitrary: acc)
  case Nil
  then show ?case by simp
next
  case (Cons r rs)
  from Cons.prems assms(3) obtain rv where rv: "map_of r (right_column q) = Some rv" by auto
  from Cons.prems have rest: "\<forall>r \<in> set rs. \<forall>c \<in> set (column_names rt). map_of r c \<noteq> None"
    by simp
  show ?case
  proof (cases "py_eq lv rv")
    case True
    from Cons.prems have "\<forall>c \<in> set (column_names rt). map_of r c \<noteq> None" by simp
    from merge_rows_returns [OF assms(1) this] obtain m where
      m: "merge_rows q lt rt l r = Return m" by blast
    from Cons.IH [OF rest, of "acc @ [m]"] obtain ms where
      "join_right q lt rt l lv rs (acc @ [m]) = Return ((acc @ [m]) @ ms)"
      "length ms = length (filter (\<lambda>r. py_eq lv (row_get r (right_column q))) rs)" by blast
    with True rv m show ?thesis
      by (intro exI [of _ "m # ms"]) (simp add: row_get_def)
  next
    case False
    from Cons.IH [OF rest, of acc] obtain ms where
      "join_right q lt rt l lv rs acc = Return (acc @ ms)"
      "length ms = length (filter (\<lambda>r. py_eq lv (row_get r (right_column q))) rs)" by blast
    with False rv show ?thesis
      by (intro exI [of _ ms]) (simp add: row_get_def)
  qed
qed

lemma join_left_count:
  assumes "\<forall>l \<in> set ls. \<forall>c \<in> set (column_names lt). map_of l c \<noteq> None"
    and "rows_complete rt"
    and "left_column q \<in> set (column_names lt)"
    and "right_column q \<in> set (column_names rt)"
  shows "\<exists>ms. join_left q lt rt ls acc = Return (acc @ ms)
           \<and> length ms = length (filter (\<lambda>(l, r). py_eq (row_get l (left_column q)) (row_get r (right_column q)))
                                  (List.product ls (rows rt)))"
  using assms(1)
proof (induction ls arbitrary: acc)
  case Nil
  then show ?case by simp
next
  case (Cons l ls)
  from Cons.prems assms(3) obtain lv where lv: "map_of l (left_column q) = Some lv" by auto
  from Cons.prems have lc: "\<forall>c \<in> set (column_names lt). map_of l c \<noteq> None" by simp
  from Cons.prems have rest: "\<forall>l \<in> set ls. \<forall>c \<in> set (column_names lt). map_of l c \<noteq> None"
    by simp
  from assms(2) have rc: "\<forall>r \<in> set (rows rt). \<forall>c \<in> set (column_names rt). map_of r c \<noteq> None"
    by (simp add: rows_complete_def)
  from join_right_count [OF lc rc assms(4), of lv acc] obtain ms1 where
    r1: "join_right q lt rt l lv (rows rt) acc = Return (acc @ ms1)"
    and n1: "length ms1 = length (filter (\<lambda>r. py_eq lv (row_get r (right_column q))) (rows rt))"
    by blast
  from Cons.IH [OF rest, of "acc @ ms1"] obtain ms2 where
    r2: "join_left q lt rt ls (acc @ ms1) = Return ((acc @ ms1) @ ms2)"
    and n2: "length ms2 = length (filter (\<lambda>(l, r). py_eq (row_get l (left_column q)) (row_get r (right_column q)))
                                  (List.product ls (rows rt)))"
    by blast
  have lvg: "row_get l (left_column q) = lv" using lv by (simp add: row_get_def)
  have "length (filter (\<lambda>(l, r). py_eq (row_get l (left_column q)) (row_get r (right_column q)))
                  (map (Pair l) (rows rt)))
        = length (filter (\<lambda>r. py_eq lv (row_get r (right_column q))) (rows rt))"
    by (simp add: filter_map o_def lvg)
  with lv r1 r2 n1 n2 show ?case
    by (intro exI [of _ "ms1 @ ms2"]) simp
qed

text \<open>
  C7 (amended). For two existing tables with valid join columns, complete rows and no
  WHERE predicate, the join returns success, and its data has as many rows as there are
  pairs of a left row and a right row whose join-column values are equal under Python's
  \<open>==\<close> (an \<open>int\<close> and a \<open>float\<close> that denote the same number are equal); with no such
  pair the data is empty; for \<open>*\<close> the output columns are the left table's columns in
  declared order, then the right table's, each prefixed with its table's name and a dot.
\<close>

theorem join_result_count:
  assumes "get_table db (left_table q) = Some lt"
    and "get_table db (right_table q) = Some rt"
    and "left_column q \<in> set (column_names lt)"
    and "right_column q \<in> set (column_names rt)"
    and "rows_complete lt" and "rows_complete rt"
    and "jq_where q = None"
  shows "\<exists>data. handle_select_join db q =
            Return \<lparr>success = True, message = SelectedFromJoin (length data),
                    out_columns = Some (if jq_columns q = [''*'']
                                        then map (prefixed (left_table q)) (column_names lt)
                                             @ map (prefixed (right_table q)) (column_names rt)
                                        else jq_columns q),
                    out_data = Some data\<rparr>
          \<and> length data = length (join_pairs py_eq q lt rt)
          \<and> (join_pairs py_eq q lt rt = [] \<longrightarrow> data = [])"
proof -
  from assms(5) have lc: "\<forall>l \<in> set (rows lt). \<forall>c \<in> set (column_names lt). map_of l c \<noteq> None"
    by (simp add: rows_complete_def)
  from join_left_count [OF lc assms(6) assms(3) assms(4), of "[]"] obtain ms where
    j: "join_left q lt rt (rows lt) [] = Return ms"
    and n: "length ms = length (join_pairs py_eq q lt rt)"
    by (auto simp: join_pairs_def)
  from n have e: "join_pairs py_eq q lt rt = [] \<longrightarrow> ms = []" by auto
  show ?thesis
    using assms(1-4,7) j n e
    by (simp add: handle_select_join_def Let_def)
qed

lemma mixed_eval:
  "mixed_users = (Table_init ''users'' [(''id'', ''INT'')] ''id'' [])
      \<lparr>rows := [[(''id'', PInt 1)]], primary_index := [(PInt 1, 0)]\<rparr>"
  "mixed_orders = (Table_init ''orders'' [(''id'', ''INT''), (''user_id'', ''FLOAT'')] ''id'' [])
      \<lparr>rows := [[(''id'', PInt 10), (''user_id'', PFloat (Fin 1))]],
        primary_index := [(PInt 10, 0)]\<rparr>"
  by (simp_all add: mixed_users_def mixed_orders_def Table_insert_def Table_init_def
      convert_value_def upper_def upper_char_def Let_def sample_prims_def)

text \<open>
  C7 as stated fails: with \<open>users.id\<close> the integer 1 and \<open>orders.user_id\<close> the float 1.0
  the join returns one row, while no pair is equal under the type-sensitive equality.
\<close>

theorem join_type_sensitive_counterexample:
  "handle_select_join mixed_db shop_query =
     Return \<lparr>success = True, message = SelectedFromJoin 1,
             out_columns = Some [''users.id'', ''orders.id'', ''orders.user_id''],
             out_data = Some [[PInt 1, PInt 10, PFloat (Fin 1)]]\<rparr>
   \<and> join_pairs type_sensitive_eq shop_query mixed_users mixed_orders = []"
  by (simp add: handle_select_join_def get_table_def mixed_db_def shop_query_def mixed_eval
      Table_init_def merge_rows_def prefixed_def py_eq_def row_get_def join_pairs_def
      type_sensitive_eq_def)

lemma shop_join_eval:
  "handle_select_join shop_db shop_query =
     Return \<lparr>success = True, message = SelectedFromJoin 3,
             out_columns = Some [''users.id'', ''users.name'', ''orders.id'', ''orders.user_id'',
                                 ''orders.product''],
             out_data = Some [[PInt 1, PStr ''John Doe'', PInt 101, PInt 1, PStr ''Laptop''],
                              [PInt 1, PStr ''John Doe'', PInt 102, PInt 1, PStr ''Mouse''],
                              [PInt 2, PStr ''Jane Smith'', PInt 103, PInt 2, PStr ''Keyboard'']]\<rparr>"
  by (simp add: handle_select_join_def get_table_def shop_db_def shop_query_def shop_users_def
      shop_orders_def Table_init_def merge_rows_def prefixed_def py_eq_def row_get_def)

theorem join_result_count_witness:
  "length (join_pairs py_eq shop_query shop_users shop_orders) = 3
   \<and> (\<exists>data. out_data (execute_guard (handle_select_join shop_db shop_query)) = Some data
          \<and> length data = 3)"
proof -
  have a: "get_table shop_db (left_table shop_query) = Some shop_users"
    and b: "get_table shop_db (right_table shop_query) = Some shop_orders"
    by (simp_all add: get_table_def shop_db_def shop_query_def)
  have c: "left_column shop_query \<in> set (column_names shop_users)"
    and d: "right_column shop_query \<in> set (column_names shop_orders)"
    by (simp_all add: shop_query_def shop_users_def shop_orders_def Table_init_def)
  have e: "rows_complete shop_users" and f: "rows_complete shop_orders"
    by (simp_all add: rows_complete_def shop_users_def shop_orders_def Table_init_def)
  have g: "jq_where shop_query = None" by (simp add: shop_query_def)
  have n: "length (join_pairs py_eq shop_query shop_users shop_orders) = 3"
    by (simp add: join_pairs_def shop_query_def shop_users_def shop_orders_def Table_init_def
        row_get_def py_eq_def)
  from join_result_count [OF a b c d e f g] n show ?thesis
    by (auto simp: execute_guard_def)
qed

text \<open>
  C3 (what the code does). For the query
  \<open>SELECT * FROM users JOIN orders ON users.id = orders.user_id WHERE users.id = 1\<close> the
  parser's WHERE clause is \<open>None\<close>, since \<open>\w+\<close> does not match the dot, and the executor
  returns all three combined rows; the filter on the key \<open>users.id\<close> would keep two. The
  unprefixed \<open>WHERE id = 1\<close> is parsed, matches no key of a combined row, and leaves none.
\<close>

theorem join_where_prefixed_column_ignored:
  "join_where_of fp (Some ''users.id = 1'') = None
   \<and> handle_select_join shop_db (shop_query\<lparr>jq_where := join_where_of fp (Some ''users.id = 1'')\<rparr>)
       = handle_select_join shop_db shop_query
   \<and> map_option length (out_data (execute_guard (handle_select_join shop_db shop_query))) = Some 3
   \<and> map_option length (out_data (execute_guard
        (handle_select_join shop_db (shop_query\<lparr>jq_where := Some (''users.id'', PInt 1)\<rparr>))))
       = Some 2
   \<and> join_where_of fp (Some ''id = 1'') = Some (''id'', PInt 1)
   \<and> map_option length (out_data (execute_guard
        (handle_select_join shop_db (shop_query\<lparr>jq_where := Some (''id'', PInt 1)\<rparr>))))
       = Some 0"
proof -
  have w: "join_where_of fp (Some ''users.id = 1'') = None"
    by (simp add: join_where_of_def parse_where_def strip_def isspace_def isword_def)
  have q: "shop_query\<lparr>jq_where := None\<rparr> = shop_query" by (simp add: shop_query_def)
  have u: "join_where_of fp (Some ''id = 1'') = Some (''id'', PInt 1)"
    by (simp add: join_where_of_def parse_where_def strip_def isspace_def isword_def newline_def
        parse_single_value_def startswith_def endswith_def dquote_def squote_def int_of_str_def int_strip_def int_space_def exceeds_limit_def
        int_unsigned_def isdigit_def digit_val_def)
  have f2: "map_option length (out_data (execute_guard
        (handle_select_join shop_db (shop_query\<lparr>jq_where := Some (''users.id'', PInt 1)\<rparr>))))
       = Some 2"
    by (simp add: handle_select_join_def get_table_def shop_db_def shop_query_def shop_users_def
      shop_orders_def Table_init_def merge_rows_def prefixed_def py_eq_def row_get_def
      matches_def execute_guard_def)
  have f0: "map_option length (out_data (execute_guard
        (handle_select_join shop_db (shop_query\<lparr>jq_where := Some (''id'', PInt 1)\<rparr>))))
       = Some 0"
    by (simp add: handle_select_join_def get_table_def shop_db_def shop_query_def shop_users_def
      shop_orders_def Table_init_def merge_rows_def prefixed_def py_eq_def row_get_def
      matches_def execute_guard_def)
  show ?thesis
    by (simp only: w q u f2 f0 shop_join_eval) (simp add: execute_guard_def)
qed

subsection \<open>The indexes after inserts and deletes\<close>

lemma index_from_Nil [simp]: "index_from k col [] = []"
  by (simp add: index_from_def)

lemma index_from_Cons [simp]:
  "index_from k col (r # rs) = (row_get r col, k) # index_from (Suc k) col rs"
  by (simp add: index_from_def)

lemma index_from_append:
  "index_from k col (rs @ rs') = index_from k col rs @ index_from (k + length rs) col rs'"
  by (induction rs arbitrary: k) simp_all

lemma length_index_from [simp]: "length (index_from k col rs) = length rs"
  by (simp add: index_from_def)

lemma idx_mem_index_from:
  "idx_mem v (index_from k col rs) \<longleftrightarrow> key_of v \<in> set (col_keys col rs)"
  by (induction rs arbitrary: k) (auto simp: col_keys_def py_eq_def)

lemma idx_set_fresh: "\<not> idx_mem v ix \<Longrightarrow> idx_set v i ix = ix @ [(v, i)]"
  by (induction ix) auto

lemma idx_get_fresh_append:
  "\<not> idx_mem v ix \<Longrightarrow> idx_get (ix @ ix') v = idx_get ix' v"
  by (induction ix) auto

lemma index_of_snoc:
  "index_of col (rs @ [r]) = index_of col rs @ [(row_get r col, length rs)]"
  by (simp add: index_of_def index_from_append)

lemma idx_set_index_of:
  "key_of (row_get r col) \<notin> set (col_keys col rs) \<Longrightarrow>
     idx_set (row_get r col) (length rs) (index_of col rs) = index_of col (rs @ [r])"
  by (simp add: idx_set_fresh idx_mem_index_from index_of_def index_from_append)

lemma idx_get_index_from:
  "distinct (col_keys col rs) \<Longrightarrow> i < length rs \<Longrightarrow> key_of (row_get (rs ! i) col) \<noteq> KNaN \<Longrightarrow>
     idx_get (index_from k col rs) (row_get (rs ! i) col) = Some (k + i)"
proof (induction rs arbitrary: k i)
  case Nil
  then show ?case by simp
next
  case (Cons r rs)
  show ?case
  proof (cases i)
    case 0
    with Cons.prems show ?thesis by (simp add: py_eq_def)
  next
    case (Suc j)
    with Cons.prems have j: "j < length rs" and d: "distinct (col_keys col rs)"
      and v: "key_of (row_get (rs ! j) col) \<noteq> KNaN"
      by (simp_all add: col_keys_def split: if_splits)
    from j v have m: "key_of (row_get (rs ! j) col) \<in> set (col_keys col rs)"
      by (simp add: col_keys_def)
    from Cons.prems(1) have "key_of (row_get r col) \<notin> set (col_keys col rs)"
      by (cases "key_of (row_get r col) = KNaN") (auto simp: col_keys_def)
    with m have "\<not> py_eq (row_get r col) (row_get (rs ! j) col)"
      by (auto simp: py_eq_def)
    with Cons.IH [OF d j v, of "Suc k"] Suc show ?thesis by simp
  qed
qed

lemma idx_get_index_from_Some:
  "idx_get (index_from k col rs) v = Some n \<Longrightarrow>
     k \<le> n \<and> n - k < length rs \<and> py_eq (row_get (rs ! (n - k)) col) v"
proof (induction rs arbitrary: k)
  case Nil
  then show ?case by simp
next
  case (Cons r rs)
  show ?case
  proof (cases "py_eq (row_get r col) v")
    case True
    with Cons.prems show ?thesis by simp
  next
    case False
    with Cons.prems have "idx_get (index_from (Suc k) col rs) v = Some n" by simp
    from Cons.IH [OF this] show ?thesis
      by (auto simp: Suc_diff_le)
  qed
qed

lemma map_of_tabulate:
  "map_of (map (\<lambda>c. (c, f c)) ucols) c = (if c \<in> set ucols then Some (f c) else None)"
  by (induction ucols) auto

lemma update_tabulate:
  "distinct ucols \<Longrightarrow> c \<in> set ucols \<Longrightarrow>
     AList.update c v (map (\<lambda>c. (c, f c)) ucols) = map (\<lambda>c'. (c', (f(c := v)) c')) ucols"
  by (induction ucols) auto

lemma check_unique_tabulate:
  "check_unique (map (\<lambda>c. (c, f c)) ucols) r cols = UniqueOk \<Longrightarrow>
     \<forall>c \<in> set cols. map_of r c \<noteq> None \<and> c \<in> set ucols \<and> \<not> idx_mem (row_get r c) (f c)"
  by (induction cols)
     (auto simp: map_of_tabulate row_get_def split: option.splits if_splits)

lemma set_unique_tabulate:
  "distinct ucols \<Longrightarrow> distinct cols \<Longrightarrow> set cols \<subseteq> set ucols \<Longrightarrow>
   \<forall>c \<in> set cols. map_of r c \<noteq> None \<Longrightarrow>
     set_unique r i cols (map (\<lambda>c. (c, f c)) ucols) =
       (None, map (\<lambda>c. (c, if c \<in> set cols then idx_set (row_get r c) i (f c) else f c)) ucols)"
proof (induction cols arbitrary: f)
  case Nil
  then show ?case by simp
next
  case (Cons c cols)
  from Cons.prems obtain v where v: "map_of r c = Some v" by auto
  then have g: "row_get r c = v" by (simp add: row_get_def)
  from Cons.prems have c: "c \<in> set ucols" "c \<notin> set cols" by auto
  let ?f = "f(c := idx_set v i (f c))"
  have "set_unique r i (c # cols) (map (\<lambda>c. (c, f c)) ucols)
          = set_unique r i cols (map (\<lambda>c'. (c', ?f c')) ucols)"
    using v c Cons.prems(1) by (simp add: map_of_tabulate update_tabulate)
  also have "\<dots> = (None, map (\<lambda>c'. (c', if c' \<in> set cols then idx_set (row_get r c') i (?f c')
                                        else ?f c')) ucols)"
    using Cons.prems by (intro Cons.IH) auto
  also have "map (\<lambda>c'. (c', if c' \<in> set cols then idx_set (row_get r c') i (?f c') else ?f c')) ucols
      = map (\<lambda>c'. (c', if c' \<in> set (c # cols) then idx_set (row_get r c') i (f c') else f c')) ucols"
    using c g by auto
  finally show ?case .
qed

lemma insert_cases:
  assumes "Table_insert fp t vs = (out, t')"
  shows "t' = t \<or>
     (\<exists>r pkv. map_of r (primary_key t) = Some pkv
        \<and> \<not> idx_mem pkv (primary_index t)
        \<and> check_unique (unique_indexes t) r (unique_columns t) = UniqueOk
        \<and> t' = t\<lparr>rows := rows t @ [r],
                   primary_index := idx_set pkv (length (rows t)) (primary_index t),
                   unique_indexes :=
                     snd (set_unique r (length (rows t)) (unique_columns t) (unique_indexes t))\<rparr>)"
  using assms
  by (auto simp: Table_insert_def Let_def
      split: if_splits row_build.splits option.splits unique_check.splits)

lemma col_keys_snoc:
  "col_keys c (rs @ [r]) =
     col_keys c rs @ (if key_of (row_get r c) = KNaN then [] else [key_of (row_get r c)])"
  by (simp add: col_keys_def)

lemma insert_preserves_inv:
  assumes inv: "table_inv t" and ins: "Table_insert fp t vs = (out, t')"
  shows "table_inv t'"
proof -
  from insert_cases [OF ins] show ?thesis
  proof
    assume "t' = t"
    with inv show ?thesis by simp
  next
    assume "\<exists>r pkv. map_of r (primary_key t) = Some pkv
        \<and> \<not> idx_mem pkv (primary_index t)
        \<and> check_unique (unique_indexes t) r (unique_columns t) = UniqueOk
        \<and> t' = t\<lparr>rows := rows t @ [r],
                   primary_index := idx_set pkv (length (rows t)) (primary_index t),
                   unique_indexes :=
                     snd (set_unique r (length (rows t)) (unique_columns t) (unique_indexes t))\<rparr>"
    then obtain r pkv where pk: "map_of r (primary_key t) = Some pkv"
      and fresh: "\<not> idx_mem pkv (primary_index t)"
      and cu: "check_unique (unique_indexes t) r (unique_columns t) = UniqueOk"
      and t': "t' = t\<lparr>rows := rows t @ [r],
                   primary_index := idx_set pkv (length (rows t)) (primary_index t),
                   unique_indexes :=
                     snd (set_unique r (length (rows t)) (unique_columns t) (unique_indexes t))\<rparr>"
      by blast
    let ?rs = "rows t" and ?u = "unique_columns t"
    from inv have pi: "primary_index t = index_of (primary_key t) ?rs"
      and ui: "unique_indexes t = map (\<lambda>c. (c, index_of c ?rs)) ?u"
      and du: "distinct ?u"
      and dk: "distinct (col_keys (primary_key t) ?rs)"
      and duk: "\<forall>c \<in> set ?u. distinct (col_keys c ?rs)"
      and comp: "\<forall>r \<in> set ?rs. map_of r (primary_key t) \<noteq> None
                   \<and> (\<forall>c \<in> set ?u. map_of r c \<noteq> None)"
      by (simp_all add: table_inv_def uix_of_def)
    have pkg: "row_get r (primary_key t) = pkv" using pk by (simp add: row_get_def)
    from fresh have nk: "key_of (row_get r (primary_key t)) \<notin> set (col_keys (primary_key t) ?rs)"
      by (simp add: pi pkg index_of_def idx_mem_index_from)
    from check_unique_tabulate [OF cu [unfolded ui]]
    have ru: "\<forall>c \<in> set ?u. map_of r c \<noteq> None"
      and nu: "\<forall>c \<in> set ?u. key_of (row_get r c) \<notin> set (col_keys c ?rs)"
      by (auto simp: index_of_def idx_mem_index_from)
    have p': "primary_index t' = index_of (primary_key t') (rows t')"
      using idx_set_index_of [OF nk] by (simp add: t' pi pkg)
    have "snd (set_unique r (length ?rs) ?u (unique_indexes t))
            = map (\<lambda>c. (c, if c \<in> set ?u then idx_set (row_get r c) (length ?rs) (index_of c ?rs)
                               else index_of c ?rs)) ?u"
      using set_unique_tabulate [OF du du subset_refl ru, of "length ?rs" "\<lambda>c. index_of c ?rs"]
      by (simp add: ui)
    also have "\<dots> = map (\<lambda>c. (c, index_of c (?rs @ [r]))) ?u"
      using nu by (simp add: idx_set_index_of)
    finally have u': "unique_indexes t' = uix_of (unique_columns t') (rows t')"
      by (simp add: t' uix_of_def)
    show ?thesis
      using p' u' du dk duk comp nk nu pk ru
      by (simp add: table_inv_def t' col_keys_snoc)
  qed
qed

lemma col_keys_append: "col_keys c (xs @ ys) = col_keys c xs @ col_keys c ys"
  by (simp add: col_keys_def)

lemma col_keys_Cons:
  "col_keys c (r # rs) =
     (if key_of (row_get r c) = KNaN then [] else [key_of (row_get r c)]) @ col_keys c rs"
  by (simp add: col_keys_def)

lemma fresh_key_of_distinct:
  "distinct (col_keys c (done @ r # rs)) \<Longrightarrow> key_of (row_get r c) \<notin> set (col_keys c done)"
  by (cases "key_of (row_get r c) = KNaN") (auto simp: col_keys_def)

lemma distinct_col_keys_pop:
  "distinct (col_keys c rs) \<Longrightarrow> distinct (col_keys c (pop idx rs))"
proof (cases "idx < length rs")
  case True
  assume d: "distinct (col_keys c rs)"
  from True have "rs = take idx rs @ rs ! idx # drop (Suc idx) rs"
    by (rule id_take_nth_drop)
  then have "col_keys c rs = col_keys c (take idx rs)
               @ (if key_of (row_get (rs ! idx) c) = KNaN then []
                  else [key_of (row_get (rs ! idx) c)])
               @ col_keys c (drop (Suc idx) rs)"
    by (metis col_keys_append col_keys_Cons)
  with d show ?thesis
    by (auto simp: pop_def col_keys_append split: if_splits)
next
  case False
  assume "distinct (col_keys c rs)"
  with False show ?thesis by (simp add: pop_def)
qed

lemma set_pop_subset: "set (pop idx rs) \<subseteq> set rs"
  by (auto simp: pop_def dest: in_set_takeD in_set_dropD)

lemma rows_ok_pop: "rows_ok t rs \<Longrightarrow> rows_ok t (pop idx rs)"
  using set_pop_subset [of idx rs]
  by (auto simp: rows_ok_def distinct_col_keys_pop)

lemma del_unique_ok:
  "\<forall>c \<in> set cols. map_of r c \<noteq> None \<and> c \<in> set (map fst uix) \<Longrightarrow>
     fst (del_unique r cols uix) = None \<and> map fst (snd (del_unique r cols uix)) = map fst uix"
proof (induction cols arbitrary: uix)
  case Nil
  then show ?case by simp
next
  case (Cons c cols)
  from Cons.prems obtain v where v: "map_of r c = Some v" by auto
  from Cons.prems have "c \<in> fst ` set uix" by simp
  then obtain ix where ix: "map_of uix c = Some ix"
    by (cases "map_of uix c") (auto simp: map_of_eq_None_iff)
  let ?uix = "if idx_mem v ix then AList.update c (idx_del v ix) uix else uix"
  have k: "map fst ?uix = map fst uix"
    using \<open>c \<in> fst ` set uix\<close> by (simp add: update_keys)
  have "\<forall>c \<in> set cols. map_of r c \<noteq> None \<and> c \<in> set (map fst ?uix)"
    using Cons.prems by (simp only: k) simp
  from Cons.IH [OF this] show ?case
    using v ix k by simp
qed

lemma length_pop: "idx < length rs \<Longrightarrow> length (pop idx rs) = length rs - 1"
  by (simp add: pop_def)

lemma delete_loop_ok:
  "loop_ok t \<Longrightarrow> sorted_wrt (>) idxs \<Longrightarrow> \<forall>i \<in> set idxs. i < length (rows t) \<Longrightarrow>
     fst (delete_loop t idxs) = None \<and> loop_ok (snd (delete_loop t idxs))
     \<and> primary_key (snd (delete_loop t idxs)) = primary_key t
     \<and> unique_columns (snd (delete_loop t idxs)) = unique_columns t"
proof (induction idxs arbitrary: t)
  case Nil
  then show ?case by simp
next
  case (Cons idx idxs)
  let ?r = "rows t ! idx"
  from Cons.prems have lt: "idx < length (rows t)" by simp
  then have mem: "?r \<in> set (rows t)" by simp
  from Cons.prems(1) mem obtain pkv where pkv: "map_of ?r (primary_key t) = Some pkv"
    and ru: "\<forall>c \<in> set (unique_columns t). map_of ?r c \<noteq> None"
    by (auto simp: loop_ok_def rows_ok_def)
  let ?t1 = "t\<lparr>rows := pop idx (rows t)\<rparr>"
  let ?t2 = "if idx_mem pkv (primary_index ?t1)
             then ?t1\<lparr>primary_index := idx_del pkv (primary_index ?t1)\<rparr> else ?t1"
  let ?du = "del_unique ?r (unique_columns ?t2) (unique_indexes ?t2)"
  let ?t3 = "?t2\<lparr>unique_indexes := snd ?du\<rparr>"
  from Cons.prems(1) have keys: "map fst (unique_indexes t) = unique_columns t"
    by (simp add: loop_ok_def)
  have "\<forall>c \<in> set (unique_columns ?t2). map_of ?r c \<noteq> None \<and> c \<in> set (map fst (unique_indexes ?t2))"
    using ru keys [symmetric] by auto
  from del_unique_ok [OF this] have du1: "fst ?du = None"
    and du2: "map fst (snd ?du) = map fst (unique_indexes ?t2)" by simp_all
  have step: "delete_loop t (idx # idxs) = delete_loop ?t3 idxs"
    using lt pkv du1 by (simp add: Let_def)
  have ok3: "loop_ok ?t3"
    using Cons.prems(1) du2 rows_ok_pop [of t "rows t" idx]
    by (simp add: loop_ok_def rows_ok_def)
  have srt: "sorted_wrt (>) idxs" using Cons.prems(2) by simp
  have bound: "\<forall>i \<in> set idxs. i < length (rows ?t3)"
    using Cons.prems(2) lt by (auto simp: length_pop)
  from Cons.IH [OF ok3 srt bound] show ?case
    by (simp only: step) simp
qed

lemma tabulate_of_distinct_keys:
  "distinct (map fst uix) \<Longrightarrow> uix = map (\<lambda>c. (c, the (map_of uix c))) (map fst uix)"
proof -
  assume d: "distinct (map fst uix)"
  have "map (\<lambda>p. (fst p, the (map_of uix (fst p)))) uix = uix"
  proof (rule map_idI)
    fix p assume "p \<in> set uix"
    then have "(fst p, snd p) \<in> set uix" by simp
    with d have "map_of uix (fst p) = Some (snd p)"
      by (rule map_of_is_SomeI)
    then show "(fst p, the (map_of uix (fst p))) = p" by simp
  qed
  then show ?thesis by (simp add: o_def)
qed

lemma clear_unique_tabulate:
  "distinct ucols \<Longrightarrow> set cols \<subseteq> set ucols \<Longrightarrow>
     clear_unique cols (map (\<lambda>c. (c, f c)) ucols) =
       (None, map (\<lambda>c. (c, if c \<in> set cols then [] else f c)) ucols)"
proof (induction cols arbitrary: f)
  case Nil
  then show ?case by simp
next
  case (Cons c cols)
  let ?f = "f(c := [])"
  have "clear_unique (c # cols) (map (\<lambda>c. (c, f c)) ucols)
          = clear_unique cols (map (\<lambda>c'. (c', ?f c')) ucols)"
    using Cons.prems by (simp add: map_of_tabulate update_tabulate)
  also have "\<dots> = (None, map (\<lambda>c'. (c', if c' \<in> set cols then [] else ?f c')) ucols)"
    using Cons.prems by (intro Cons.IH) auto
  also have "map (\<lambda>c'. (c', if c' \<in> set cols then [] else ?f c')) ucols
      = map (\<lambda>c'. (c', if c' \<in> set (c # cols) then [] else f c')) ucols"
    by auto
  finally show ?case .
qed

lemma rebuild_loop_exact:
  assumes "primary_index t = index_of (primary_key t) done"
    and "unique_indexes t = uix_of (unique_columns t) done"
    and "distinct (unique_columns t)"
    and "rows_ok t (done @ rs)"
  shows "rebuild_loop t (length done) rs =
           (None, t\<lparr>primary_index := index_of (primary_key t) (done @ rs),
                     unique_indexes := uix_of (unique_columns t) (done @ rs)\<rparr>)"
  using assms
proof (induction rs arbitrary: t "done")
  case Nil
  then show ?case by simp
next
  case (Cons r rs)
  let ?pk = "primary_key t" and ?u = "unique_columns t" and ?n = "length done"
  from Cons.prems(4) obtain pkv where pkv: "map_of r ?pk = Some pkv"
    and ru: "\<forall>c \<in> set ?u. map_of r c \<noteq> None"
    and nk: "key_of (row_get r ?pk) \<notin> set (col_keys ?pk done)"
    and nu: "\<forall>c \<in> set ?u. key_of (row_get r c) \<notin> set (col_keys c done)"
    by (auto simp: rows_ok_def dest: fresh_key_of_distinct)
  have pkg: "row_get r ?pk = pkv" using pkv by (simp add: row_get_def)
  let ?t1 = "t\<lparr>primary_index := idx_set pkv ?n (primary_index t)\<rparr>"
  have p1: "primary_index ?t1 = index_of ?pk (done @ [r])"
    using idx_set_index_of [OF nk] by (simp add: Cons.prems(1) pkg)
  have "set_unique r ?n ?u (unique_indexes t)
          = (None, map (\<lambda>c. (c, if c \<in> set ?u then idx_set (row_get r c) ?n (index_of c done)
                                   else index_of c done)) ?u)"
    using set_unique_tabulate [OF Cons.prems(3) Cons.prems(3) subset_refl ru,
        of ?n "\<lambda>c. index_of c done"]
    by (simp add: Cons.prems(2) uix_of_def)
  also have "map (\<lambda>c. (c, if c \<in> set ?u then idx_set (row_get r c) ?n (index_of c done)
                                   else index_of c done)) ?u
             = uix_of ?u (done @ [r])"
    using nu by (simp add: idx_set_index_of uix_of_def)
  finally have su: "set_unique r ?n ?u (unique_indexes t) = (None, uix_of ?u (done @ [r]))" .
  let ?t2 = "?t1\<lparr>unique_indexes := uix_of ?u (done @ [r])\<rparr>"
  have step: "rebuild_loop t ?n (r # rs) = rebuild_loop ?t2 (length (done @ [r])) rs"
    using pkv su by (simp add: Let_def)
  have ok: "rows_ok ?t2 ((done @ [r]) @ rs)"
    using Cons.prems(4) by (simp add: rows_ok_def)
  have "rebuild_loop ?t2 (length (done @ [r])) rs =
          (None, ?t2\<lparr>primary_index := index_of (primary_key ?t2) ((done @ [r]) @ rs),
                      unique_indexes := uix_of (unique_columns ?t2) ((done @ [r]) @ rs)\<rparr>)"
    using p1 Cons.prems(3) ok by (intro Cons.IH) simp_all
  then show ?case
    by (simp only: step) simp
qed

lemma rebuild_indexes_exact:
  assumes "loop_ok t"
  shows "rebuild_indexes t =
           (None, t\<lparr>primary_index := index_of (primary_key t) (rows t),
                     unique_indexes := uix_of (unique_columns t) (rows t)\<rparr>)"
proof -
  let ?u = "unique_columns t"
  from assms have keys: "map fst (unique_indexes t) = ?u" and du: "distinct ?u"
    and ok: "rows_ok t (rows t)"
    by (simp_all add: loop_ok_def)
  from du keys have "unique_indexes t = map (\<lambda>c. (c, the (map_of (unique_indexes t) c))) ?u"
    using tabulate_of_distinct_keys [of "unique_indexes t"] by simp
  then have "clear_unique ?u (unique_indexes t)
               = clear_unique ?u (map (\<lambda>c. (c, the (map_of (unique_indexes t) c))) ?u)"
    by simp
  also have "\<dots> = (None, map (\<lambda>c. (c, if c \<in> set ?u then []
                                       else the (map_of (unique_indexes t) c))) ?u)"
    using du by (intro clear_unique_tabulate) simp_all
  also have "map (\<lambda>c. (c, if c \<in> set ?u then [] else the (map_of (unique_indexes t) c))) ?u
               = uix_of ?u []"
    by (simp add: uix_of_def index_of_def)
  finally have cu: "clear_unique ?u (unique_indexes t) = (None, uix_of ?u [])" .
  let ?t2 = "t\<lparr>primary_index := [], unique_indexes := uix_of ?u []\<rparr>"
  have "rebuild_loop ?t2 (length ([] :: row list)) (rows t) =
          (None, ?t2\<lparr>primary_index := index_of (primary_key ?t2) ([] @ rows t),
                      unique_indexes := uix_of (unique_columns ?t2) ([] @ rows t)\<rparr>)"
    using du ok by (intro rebuild_loop_exact) (simp_all add: index_of_def rows_ok_def)
  then show ?thesis
    by (simp add: rebuild_indexes_def Let_def cu)
qed

lemma inv_loop_ok: "table_inv t \<Longrightarrow> loop_ok t"
  by (simp add: table_inv_def loop_ok_def rows_ok_def uix_of_def o_def)

lemma matching_descending: "sorted_wrt (>) (rev (sort (matching w rs)))"
proof -
  have "sorted_wrt (<) (matching w rs)"
    unfolding matching_def by (rule sorted_wrt_filter) (rule sorted_wrt_upt)
  then have "sort (matching w rs) = matching w rs"
    by (intro sorted_sort_id) (simp add: strict_sorted_imp_sorted)
  with \<open>sorted_wrt (<) (matching w rs)\<close> show ?thesis
    by (simp add: sorted_wrt_rev)
qed

lemma delete_preserves_inv:
  assumes inv: "table_inv t" and del: "Table_delete t wh = (out, t')"
  shows "table_inv t' \<and> primary_key t' = primary_key t \<and> unique_columns t' = unique_columns t"
proof (cases wh)
  case None
  with del inv show ?thesis by (simp add: Table_delete_def)
next
  case (Some w)
  show ?thesis
  proof (cases "matching w (rows t) = []")
    case True
    with Some del inv show ?thesis by (simp add: Table_delete_def)
  next
    case False
    let ?idxs = "rev (sort (matching w (rows t)))"
    let ?d = "delete_loop t ?idxs"
    have bound: "\<forall>i \<in> set ?idxs. i < length (rows t)"
      by (simp add: matching_def)
    from delete_loop_ok [OF inv_loop_ok [OF inv] matching_descending bound]
    have d1: "fst ?d = None" and d2: "loop_ok (snd ?d)"
      and d3: "primary_key (snd ?d) = primary_key t"
      and d4: "unique_columns (snd ?d) = unique_columns t"
      by simp_all
    from rebuild_indexes_exact [OF d2]
    have rb: "rebuild_indexes (snd ?d) =
           (None, (snd ?d)\<lparr>primary_index := index_of (primary_key (snd ?d)) (rows (snd ?d)),
                     unique_indexes := uix_of (unique_columns (snd ?d)) (rows (snd ?d))\<rparr>)" .
    from del Some False d1 rb
    have t': "t' = (snd ?d)\<lparr>primary_index := index_of (primary_key (snd ?d)) (rows (snd ?d)),
                     unique_indexes := uix_of (unique_columns (snd ?d)) (rows (snd ?d))\<rparr>"
      by (simp add: Table_delete_def Let_def)
    from d2 d3 d4 show ?thesis
      by (simp add: t' table_inv_def loop_ok_def rows_ok_def)
  qed
qed

lemma insert_statics:
  "Table_insert fp t vs = (out, t') \<Longrightarrow>
     primary_key t' = primary_key t \<and> unique_columns t' = unique_columns t"
  by (drule insert_cases) auto

lemma init_inv: "table_inv (Table_init n cols pk uniq)"
  by (simp add: table_inv_def Table_init_def index_of_def uix_of_def col_keys_def)

lemma apply_op_inv:
  assumes "table_inv t"
  shows "table_inv (apply_op fp op t) \<and> primary_key (apply_op fp op t) = primary_key t
         \<and> unique_columns (apply_op fp op t) = unique_columns t"
proof (cases op)
  case (Insert vs)
  obtain out t' where i: "Table_insert fp t vs = (out, t')" by (cases "Table_insert fp t vs")
  from insert_preserves_inv [OF assms i] insert_statics [OF i] Insert i show ?thesis by simp
next
  case (Delete wh)
  obtain out t' where d: "Table_delete t wh = (out, t')" by (cases "Table_delete t wh")
  from delete_preserves_inv [OF assms d] Delete d show ?thesis by simp
qed

lemma run_inv:
  "table_inv t \<Longrightarrow> table_inv (run fp t ops) \<and> primary_key (run fp t ops) = primary_key t
     \<and> unique_columns (run fp t ops) = unique_columns t"
proof (induction ops arbitrary: t)
  case Nil
  then show ?case by (simp add: run_def)
next
  case (Cons op ops)
  from apply_op_inv [OF Cons.prems, of fp op] Cons.IH [of "apply_op fp op t"]
  show ?case by (simp add: run_def)
qed

lemma inv_exact_index:
  "distinct (col_keys col rs) \<Longrightarrow> exact_index (index_of col rs) col rs"
  using idx_get_index_from [of col rs _ 0]
  by (simp add: exact_index_def index_of_def py_eq_def)

text \<open>
  C1. After any sequence of insert and delete calls on the empty table that
  \<open>Table.__init__\<close> creates, the primary index has exactly one entry per stored row, from
  the row's primary-key value to the row's position, and the index of every unique
  column has exactly one entry per stored row, from the row's value in that column to the
  row's position; a lookup of a stored row's value finds the row's position (for every
  value that is equal to itself, that is for every value but NaN, which no lookup by
  value finds).
\<close>

theorem indexes_exact_after_inserts_and_deletes:
  "exact_index (primary_index (run fp (Table_init n cols pk uniq) ops)) pk
      (rows (run fp (Table_init n cols pk uniq) ops))
   \<and> map fst (unique_indexes (run fp (Table_init n cols pk uniq) ops)) = remdups uniq
   \<and> (\<forall>c \<in> set uniq. \<exists>ix.
         map_of (unique_indexes (run fp (Table_init n cols pk uniq) ops)) c = Some ix
         \<and> exact_index ix c (rows (run fp (Table_init n cols pk uniq) ops)))"
proof -
  let ?t = "run fp (Table_init n cols pk uniq) ops"
  from run_inv [OF init_inv, of fp n cols pk uniq ops]
  have inv: "table_inv ?t" and pk: "primary_key ?t = pk" and u: "unique_columns ?t = remdups uniq"
    by (simp_all add: Table_init_def)
  from inv pk have a: "exact_index (primary_index ?t) pk (rows ?t)"
    by (simp add: table_inv_def inv_exact_index)
  from inv u have ui: "unique_indexes ?t = uix_of (remdups uniq) (rows ?t)"
    and d: "\<forall>c \<in> set uniq. distinct (col_keys c (rows ?t))"
    by (simp_all add: table_inv_def)
  have b: "map fst (unique_indexes ?t) = remdups uniq"
    by (simp add: ui uix_of_def o_def)
  have c: "\<exists>ix. map_of (unique_indexes ?t) c = Some ix \<and> exact_index ix c (rows ?t)"
    if "c \<in> set uniq" for c
    using that d by (simp add: ui uix_of_def map_of_tabulate inv_exact_index)
  from a b c show ?thesis by blast
qed

lemma sample_run_rows:
  "rows (run sample_prims users0 sample_ops)
     = [[(''id'', PInt 2), (''name'', PStr ''Jane''), (''email'', PStr ''jane@x.com'')]]"
  by (simp add: run_def sample_ops_def users0_def Table_init_def Table_insert_def
      Table_delete_def convert_value_def upper_def upper_char_def Let_def py_eq_def
      matching_def matches_def row_get_def pop_def rebuild_indexes_def)

theorem indexes_exact_after_inserts_and_deletes_witness:
  "rows (run sample_prims users0 sample_ops)
     = [[(''id'', PInt 2), (''name'', PStr ''Jane''), (''email'', PStr ''jane@x.com'')]]
   \<and> primary_index (run sample_prims users0 sample_ops) = [(PInt 2, 0)]
   \<and> map_of (unique_indexes (run sample_prims users0 sample_ops)) ''email''
       = Some [(PStr ''jane@x.com'', 0)]"
proof -
  let ?t = "run sample_prims users0 sample_ops"
  note th = indexes_exact_after_inserts_and_deletes
    [of sample_prims "''users''" "[(''id'', ''INT''), (''name'', ''TEXT''), (''email'', ''TEXT'')]"
        "''id''" "[''email'']" sample_ops, folded users0_def]
  from th have p: "primary_index ?t = index_of ''id'' (rows ?t)"
    by (simp add: exact_index_def)
  from th obtain ix where "map_of (unique_indexes ?t) ''email'' = Some ix"
    and "ix = index_of ''email'' (rows ?t)"
    by (auto simp: exact_index_def)
  then have e: "map_of (unique_indexes ?t) ''email'' = Some (index_of ''email'' (rows ?t))"
    by simp
  show ?thesis
    by (simp add: p e) (simp add: sample_run_rows index_of_def row_get_def)
qed

subsection \<open>Supporting facts\<close>

text \<open>
  The hypotheses of the statement on the failing update cover every SET clause with an
  assignment that does not convert: up to the first such assignment the loop succeeds.
\<close>

lemma first_failing_assignment:
  assumes "\<exists>a \<in> set sv. fst a \<in> set (column_names t) \<and> \<not> converts fp t a"
  shows "\<exists>pre a post r'. sv = pre @ a # post \<and> fst a \<in> set (column_names t)
           \<and> \<not> converts fp t a \<and> update_row fp t pre r = (UpdDone, r')"
proof -
  from split_list_first_prop [OF assms] obtain pre a post where
    sv: "sv = pre @ a # post" and a: "fst a \<in> set (column_names t) \<and> \<not> converts fp t a"
    and pre: "\<forall>b \<in> set pre. \<not> (fst b \<in> set (column_names t) \<and> \<not> converts fp t b)"
    by blast
  from pre have "\<forall>b \<in> set pre. fst b \<in> set (column_names t) \<longrightarrow> converts fp t b" by blast
  from update_row_converts [OF this, of r]
  have "update_row fp t pre r = (UpdDone, snd (update_row fp t pre r))"
    by (simp add: prod_eq_iff)
  with sv a show ?thesis by blast
qed

text \<open>
  A row that \<open>insert\<close> builds has an entry for every column, so \<open>insert\<close> keeps the rows
  complete, which is what the statement on the join asks of its two tables.
\<close>

lemma build_row_keys:
  "build_row fp cols vs r = Built r' \<Longrightarrow> fst ` set r' = fst ` set cols \<union> fst ` set r"
  by (induction fp cols vs r rule: build_row.induct)
     (auto simp: dom_update split: outcome.splits exn.splits)

lemma insert_cases_row:
  assumes "Table_insert fp t vs = (out, t')"
  shows "t' = t \<or>
     (\<exists>r. build_row fp (columns t) vs [] = Built r \<and> rows t' = rows t @ [r]
        \<and> column_names t' = column_names t \<and> columns t' = columns t)"
  using assms
  by (auto simp: Table_insert_def Let_def
      split: if_splits row_build.splits option.splits unique_check.splits)

lemma insert_rows_complete:
  assumes c: "rows_complete t" and n: "column_names t = map fst (columns t)"
  shows "rows_complete (snd (Table_insert fp t vs))
         \<and> column_names (snd (Table_insert fp t vs)) = column_names t
         \<and> columns (snd (Table_insert fp t vs)) = columns t"
proof -
  obtain out t' where i: "Table_insert fp t vs = (out, t')" by (cases "Table_insert fp t vs")
  from insert_cases_row [OF i] have "rows_complete t' \<and> column_names t' = column_names t
      \<and> columns t' = columns t"
  proof
    assume "t' = t"
    with c show ?thesis by simp
  next
    assume "\<exists>r. build_row fp (columns t) vs [] = Built r \<and> rows t' = rows t @ [r]
        \<and> column_names t' = column_names t \<and> columns t' = columns t"
    then obtain r where b: "build_row fp (columns t) vs [] = Built r"
      and r: "rows t' = rows t @ [r]"
      and s: "column_names t' = column_names t" "columns t' = columns t"
      by blast
    from build_row_keys [OF b] have "fst ` set r = set (column_names t)"
      by (simp add: n)
    then have "\<forall>col \<in> set (column_names t). map_of r col \<noteq> None"
      by (simp add: map_of_eq_None_iff)
    with c r s show ?thesis by (simp add: rows_complete_def)
  qed
  with i show ?thesis by simp
qed

end
